theory Spec2Isabelle
  imports Complex_Main
begin


section \<open>Floating-point values in exact arithmetic\<close>

text \<open>
  The tensors of \<^verbatim>\<open>bpt.py\<close> hold IEEE floating-point numbers. The model keeps their
  special values, since the code starts every running maximum at \<^verbatim>\<open>-inf\<close> and
  divides by denominators that may be zero, and computes on the finite values in exact
  real arithmetic: rounding, overflow, underflow and the sign of zero are not
  modelled, and a cast between floating-point types (\<^verbatim>\<open>astype\<close>) is the identity.
  \<open>Fin x\<close> is the finite value \<open>x\<close>, \<open>PInf\<close> and \<open>NInf\<close> are the infinities.
\<close>

datatype fl = Fin real | PInf | NInf | NaN

fun fl_add :: "fl \<Rightarrow> fl \<Rightarrow> fl" where
  "fl_add (Fin a) (Fin b) = Fin (a + b)"
| "fl_add NaN _ = NaN"
| "fl_add _ NaN = NaN"
| "fl_add PInf NInf = NaN"
| "fl_add NInf PInf = NaN"
| "fl_add PInf _ = PInf"
| "fl_add _ PInf = PInf"
| "fl_add NInf _ = NInf"
| "fl_add _ NInf = NInf"

fun fl_neg :: "fl \<Rightarrow> fl" where
  "fl_neg (Fin a) = Fin (- a)"
| "fl_neg PInf = NInf"
| "fl_neg NInf = PInf"
| "fl_neg NaN = NaN"

fun fl_mul :: "fl \<Rightarrow> fl \<Rightarrow> fl" where
  "fl_mul (Fin a) (Fin b) = Fin (a * b)"
| "fl_mul NaN _ = NaN"
| "fl_mul _ NaN = NaN"
| "fl_mul (Fin a) x = (if a = 0 then NaN else if 0 < a then x else fl_neg x)"
| "fl_mul x (Fin b) = (if b = 0 then NaN else if 0 < b then x else fl_neg x)"
| "fl_mul PInf x = x"
| "fl_mul NInf x = fl_neg x"

fun fl_div :: "fl \<Rightarrow> fl \<Rightarrow> fl" where
  "fl_div (Fin a) (Fin b) =
     (if b \<noteq> 0 then Fin (a / b) else if a = 0 then NaN else if 0 < a then PInf else NInf)"
| "fl_div NaN _ = NaN"
| "fl_div _ NaN = NaN"
| "fl_div (Fin a) _ = Fin 0"
| "fl_div x (Fin b) = (if 0 \<le> b then x else fl_neg x)"
| "fl_div _ _ = NaN"

fun fl_exp :: "fl \<Rightarrow> fl" where
  "fl_exp (Fin a) = Fin (exp a)"
| "fl_exp PInf = PInf"
| "fl_exp NInf = Fin 0"
| "fl_exp NaN = NaN"

text \<open>\<^verbatim>\<open>jnp.maximum\<close> propagates \<^verbatim>\<open>nan\<close>.\<close>

fun fl_max :: "fl \<Rightarrow> fl \<Rightarrow> fl" where
  "fl_max (Fin a) (Fin b) = Fin (max a b)"
| "fl_max NaN _ = NaN"
| "fl_max _ NaN = NaN"
| "fl_max PInf _ = PInf"
| "fl_max _ PInf = PInf"
| "fl_max NInf x = x"
| "fl_max x NInf = x"

instantiation fl :: "{zero, one, plus, uminus, minus, times, inverse}"
begin

definition zero_fl :: fl where "zero_fl = Fin 0"

definition one_fl :: fl where "one_fl = Fin 1"

definition plus_fl :: "fl \<Rightarrow> fl \<Rightarrow> fl" where "plus_fl a b = fl_add a b"

definition uminus_fl :: "fl \<Rightarrow> fl" where "uminus_fl a = fl_neg a"

definition minus_fl :: "fl \<Rightarrow> fl \<Rightarrow> fl" where "minus_fl a b = fl_add a (fl_neg b)"

definition times_fl :: "fl \<Rightarrow> fl \<Rightarrow> fl" where "times_fl a b = fl_mul a b"

definition divide_fl :: "fl \<Rightarrow> fl \<Rightarrow> fl" where "divide_fl a b = fl_div a b"

definition inverse_fl :: "fl \<Rightarrow> fl" where "inverse_fl a = fl_div (Fin 1) a"

instance ..

end

text \<open>
  A sum over an axis (\<^verbatim>\<open>einsum\<close>, \<^verbatim>\<open>sum(axis=-1)\<close>) and a maximum over an axis
  (\<^verbatim>\<open>jnp.max(axis=-1)\<close>). The axes reduced by a maximum in \<^verbatim>\<open>bpt.py\<close> have the length
  of a chunk, which is never zero where the reduction is reached.
\<close>

definition fl_sum :: "fl list \<Rightarrow> fl" where
  "fl_sum xs = foldr (+) xs 0"

fun fl_maximum :: "fl list \<Rightarrow> fl" where
  "fl_maximum [] = NInf"
| "fl_maximum (x # xs) = foldl fl_max x xs"

text \<open>\<^verbatim>\<open>jnp.finfo(dtype).min\<close>, the most negative finite value of a floating-point type.\<close>

datatype dtype = Float16 | BFloat16 | Float32 | Float64

fun finfo_min :: "dtype \<Rightarrow> real" where
  "finfo_min Float16 = - 65504"
| "finfo_min BFloat16 = - (2 - 1 / 2 ^ 7) * 2 ^ 127"
| "finfo_min Float32 = - (2 - 1 / 2 ^ 23) * 2 ^ 127"
| "finfo_min Float64 = - (2 - 1 / 2 ^ 52) * 2 ^ 1023"


section \<open>32-bit integers\<close>

text \<open>
  JAX runs without 64-bit types, so every traced integer of \<^verbatim>\<open>bpt.py\<close> is an
  \<^verbatim>\<open>int32\<close>: the tile numbers a scan hands to its body (\<^verbatim>\<open>jnp.arange\<close>),
  \<^verbatim>\<open>lax.axis_index\<close>, \<^verbatim>\<open>lax.broadcasted_iota\<close>, and whatever is computed from them.
  Their sums, differences and products wrap around. \<open>int32 x\<close> is the value a 32-bit
  two's-complement integer holds after the exact result \<open>x\<close> has been stored in it. A
  chunk size or a block size is a Python integer that JAX converts to \<^verbatim>\<open>int32\<close> where it
  meets a traced integer; the conversion is refused from \<open>2 ^ 31\<close> on, and the
  theorems below are about sizes and positions that fit.
\<close>

definition int32 :: "int \<Rightarrow> int" where
  "int32 x = (x + 2 ^ 31) mod 2 ^ 32 - 2 ^ 31"

section \<open>Errors raised by the Python code\<close>

text \<open>
  Every failure the functions of \<^verbatim>\<open>bpt.py\<close> can raise before or while they trace
  their loops is a value of this type: integer division by a zero chunk size, a
  \<^verbatim>\<open>reshape\<close> or an \<^verbatim>\<open>einsum\<close> whose shapes do not fit, an \<^verbatim>\<open>einops\<close> pattern that
  does not match its tensor, a failed \<^verbatim>\<open>assert\<close>, and arithmetic on \<^verbatim>\<open>None\<close>.
\<close>

datatype error = ZeroDivisionError | ShapeError | EinopsError | AssertionError | TypeError
  | ValueError | IndexError
  | EmptyScan

section \<open>Tensors\<close>

text \<open>
  A tensor is its shape and its elements in row-major order, as NumPy and JAX store
  them. \<open>ravel\<close> is the row-major position of a multi-index, \<open>indices\<close> lists the
  multi-indices of a shape in row-major order, \<open>tabulate\<close> builds a tensor from a
  function on multi-indices. \<open>elem\<close> is only ever applied inside the range of the shape.
\<close>

record 'a tensor =
  shape :: "nat list"
  data :: "'a list"

fun ravel :: "nat list \<Rightarrow> nat list \<Rightarrow> nat" where
  "ravel (n # ns) (i # js) = i * prod_list ns + ravel ns js"
| "ravel _ _ = 0"

fun indices :: "nat list \<Rightarrow> nat list list" where
  "indices [] = [[]]"
| "indices (n # ns) = concat (map (\<lambda>i. map ((#) i) (indices ns)) [0..<n])"

definition in_range :: "nat list \<Rightarrow> nat list \<Rightarrow> bool" where
  "in_range s idx = list_all2 (<) idx s"

definition well_shaped :: "'a tensor \<Rightarrow> bool" where
  "well_shaped t \<longleftrightarrow> length (data t) = prod_list (shape t)"

definition elem :: "'a tensor \<Rightarrow> nat list \<Rightarrow> 'a" where
  "elem t idx = data t ! ravel (shape t) idx"

definition tabulate :: "nat list \<Rightarrow> (nat list \<Rightarrow> 'a) \<Rightarrow> 'a tensor" where
  "tabulate s f = \<lparr>shape = s, data = map f (indices s)\<rparr>"

text \<open>
  \<open>with_shape\<close> reinterprets the row-major data under another shape; \<open>reshape\<close> is
  \<^verbatim>\<open>jnp.reshape\<close>, which raises when the sizes differ. \<open>transpose_axes\<close> is \<^verbatim>\<open>jnp.transpose\<close>:
  axis \<open>i\<close> of the result is axis \<open>axes ! i\<close> of the argument (\<^verbatim>\<open>jnp.moveaxis(x, 1, 0)\<close> is
  \<open>transpose_axes [1, 0, 2, \<dots>]\<close>). \<open>slice_axis a t n\<close> fixes axis \<open>a\<close> of \<open>t\<close> at \<open>n\<close> and drops
  the axis (what a scan over axis \<open>a\<close> hands to step \<open>n\<close>); \<open>stack_axis a s ts\<close> stacks
  tensors of shape \<open>s\<close> along a new axis \<open>a\<close> (what a scan returns for its per-step
  outputs).
\<close>

definition with_shape :: "'a tensor \<Rightarrow> nat list \<Rightarrow> 'a tensor" where
  "with_shape t s = t\<lparr>shape := s\<rparr>"

definition reshape :: "'a tensor \<Rightarrow> nat list \<Rightarrow> error + 'a tensor" where
  "reshape t s = (if prod_list s = prod_list (shape t) then Inr (with_shape t s) else Inl ShapeError)"

fun the_pos :: "nat list \<Rightarrow> nat \<Rightarrow> nat" where
  "the_pos [] k = 0"
| "the_pos (a # as) k = (if a = k then 0 else Suc (the_pos as k))"

definition transpose_axes :: "nat list \<Rightarrow> 'a tensor \<Rightarrow> 'a tensor" where
  "transpose_axes axes t =
     tabulate (map (\<lambda>a. shape t ! a) axes)
       (\<lambda>idx. elem t (map (\<lambda>k. idx ! the_pos axes k) [0..<length axes]))"

definition slice_axis :: "nat \<Rightarrow> 'a tensor \<Rightarrow> nat \<Rightarrow> 'a tensor" where
  "slice_axis a t n =
     tabulate (take a (shape t) @ drop (Suc a) (shape t))
       (\<lambda>idx. elem t (take a idx @ n # drop a idx))"

definition stack_axis :: "nat \<Rightarrow> nat list \<Rightarrow> 'a tensor list \<Rightarrow> 'a tensor" where
  "stack_axis a s ts =
     tabulate (take a s @ length ts # drop a s)
       (\<lambda>idx. elem (ts ! (idx ! a)) (take a idx @ drop (Suc a) idx))"

section \<open>Token permutation and the blockwise feed-forward wrapper\<close>

text \<open>
  \<^verbatim>\<open>einops.rearrange\<close> splits the axes grouped in parentheses on the left (a reshape),
  reorders the elementary axes (a transpose) and merges the groups on the right (a
  reshape); it raises when the tensor has another rank than the pattern, or when a
  group's length is not a multiple of the given factor. \<open>permute_tokens\<close> uses the
  pattern \<^verbatim>\<open>b (n d) -> b (d n)\<close> and \<open>unpermute_outputs\<close> the pattern
  \<^verbatim>\<open>b (d n) x -> b (n d) x\<close>, both with \<open>d = num_devices\<close>.
\<close>

definition permute_tokens :: "string \<Rightarrow> 'a tensor \<Rightarrow> nat \<Rightarrow> error + 'a tensor" where
  "permute_tokens attention_type tokens num_devices =
     (if attention_type = ''striped'' then
        (case shape tokens of
           [b, l] \<Rightarrow>
             if num_devices = 0 \<or> l mod num_devices \<noteq> 0 then Inl EinopsError
             else Inr (with_shape
                         (transpose_axes [0, 2, 1]
                            (with_shape tokens [b, l div num_devices, num_devices]))
                         [b, l])
         | _ \<Rightarrow> Inl EinopsError)
      else Inr tokens)"

definition unpermute_outputs :: "string \<Rightarrow> 'a tensor \<Rightarrow> nat \<Rightarrow> error + 'a tensor" where
  "unpermute_outputs attention_type outputs num_devices =
     (if attention_type = ''striped'' then
        (case shape outputs of
           [b, l, x] \<Rightarrow>
             if num_devices = 0 \<or> l mod num_devices \<noteq> 0 then Inl EinopsError
             else Inr (with_shape
                         (transpose_axes [0, 2, 1, 3]
                            (with_shape outputs [b, num_devices, l div num_devices, x]))
                         [b, l, x])
         | _ \<Rightarrow> Inl EinopsError)
      else Inr outputs)"

text \<open>
  \<open>blockwise_ffn\<close>: the first argument of \<open>remat_ffn\<close> is the number of the scan step,
  which stands for the dropout stream the lifted scan splits off for that step
  (\<^verbatim>\<open>split_rngs={"dropout": True}\<close>); the parameters are broadcast and there is no
  carry. The scan stacks its per-step outputs, which must all have one shape, along
  axis 2. The shape of the result of a scan without steps comes from tracing the
  function on an abstract value, which has no counterpart here: the model reports it
  as \<open>EmptyScan\<close>.
\<close>

definition blockwise_ffn ::
  "(nat \<Rightarrow> 'a tensor \<Rightarrow> bool \<Rightarrow> 'b tensor) \<Rightarrow> 'a tensor \<Rightarrow> nat \<Rightarrow> bool \<Rightarrow> error + 'b tensor" where
  "blockwise_ffn remat_ffn inputs chunk_size deterministic =
     (case shape inputs of
        [b, l, d] \<Rightarrow>
          if chunk_size = 0 \<or> l mod chunk_size \<noteq> 0 then Inl EinopsError
          else
            let n = l div chunk_size;
                inputs' = with_shape inputs [b, chunk_size, n, d];
                scan_ffn = (\<lambda>t. remat_ffn t (slice_axis 2 inputs' t) deterministic);
                outputs = map scan_ffn [0..<n]
            in (case outputs of
                  [] \<Rightarrow> Inl EmptyScan
                | out # _ \<Rightarrow>
                    (case shape out of
                       [b', c', d'] \<Rightarrow>
                         if list_all (\<lambda>t. shape t = [b', c', d']) outputs
                         then Inr (with_shape (stack_axis 2 [b', c', d'] outputs) [b', c' * n, d'])
                         else Inl ShapeError
                     | _ \<Rightarrow> Inl EinopsError))
      | _ \<Rightarrow> Inl EinopsError)"

text \<open>
  The two readings of ``chunk'' that claim C9 has to tell apart. \<open>ffn_contiguous_chunks\<close>
  follows the words of the specification: chunk \<open>t\<close> is the \<open>chunk_size\<close> consecutive
  positions from \<open>t * chunk_size\<close> on. \<open>ffn_strided_chunks\<close> takes chunk \<open>t\<close> to be the
  positions \<open>t, t + n, t + 2 * n, \<dots>\<close> where \<open>n\<close> is the number of chunks. In both, \<open>s\<close> is
  the shape of the function's result on one chunk, and the result at a position is
  the function's result for the chunk that holds the position. \<open>first_of_chunk\<close> is a
  function that is not position-wise: it overwrites every position of a chunk with
  the chunk's first position.
\<close>

definition contiguous_chunk :: "'a tensor \<Rightarrow> nat \<Rightarrow> nat \<Rightarrow> 'a tensor" where
  "contiguous_chunk inputs chunk_size t =
     tabulate [shape inputs ! 0, chunk_size, shape inputs ! 2]
       (\<lambda>idx. elem inputs [idx ! 0, t * chunk_size + idx ! 1, idx ! 2])"

definition strided_chunk :: "'a tensor \<Rightarrow> nat \<Rightarrow> nat \<Rightarrow> 'a tensor" where
  "strided_chunk inputs chunk_size t =
     tabulate [shape inputs ! 0, chunk_size, shape inputs ! 2]
       (\<lambda>idx. elem inputs [idx ! 0, idx ! 1 * (shape inputs ! 1 div chunk_size) + t, idx ! 2])"

definition ffn_contiguous_chunks ::
  "(nat \<Rightarrow> 'a tensor \<Rightarrow> bool \<Rightarrow> 'b tensor) \<Rightarrow> 'a tensor \<Rightarrow> nat \<Rightarrow> bool \<Rightarrow> nat list \<Rightarrow> 'b tensor" where
  "ffn_contiguous_chunks remat_ffn inputs chunk_size deterministic s =
     tabulate [s ! 0, s ! 1 * (shape inputs ! 1 div chunk_size), s ! 2]
       (\<lambda>idx. elem (remat_ffn (idx ! 1 div (s ! 1))
                      (contiguous_chunk inputs chunk_size (idx ! 1 div (s ! 1))) deterministic)
                  [idx ! 0, idx ! 1 mod (s ! 1), idx ! 2])"

definition ffn_strided_chunks ::
  "(nat \<Rightarrow> 'a tensor \<Rightarrow> bool \<Rightarrow> 'b tensor) \<Rightarrow> 'a tensor \<Rightarrow> nat \<Rightarrow> bool \<Rightarrow> nat list \<Rightarrow> 'b tensor" where
  "ffn_strided_chunks remat_ffn inputs chunk_size deterministic s =
     tabulate [s ! 0, s ! 1 * (shape inputs ! 1 div chunk_size), s ! 2]
       (\<lambda>idx. elem (remat_ffn (idx ! 1 mod (shape inputs ! 1 div chunk_size))
                      (strided_chunk inputs chunk_size (idx ! 1 mod (shape inputs ! 1 div chunk_size)))
                      deterministic)
                  [idx ! 0, idx ! 1 div (shape inputs ! 1 div chunk_size), idx ! 2])"

definition first_of_chunk :: "nat \<Rightarrow> nat tensor \<Rightarrow> bool \<Rightarrow> nat tensor" where
  "first_of_chunk t x deterministic = tabulate (shape x) (\<lambda>idx. elem x [idx ! 0, 0, idx ! 2])"

section \<open>The array operations the attention code uses\<close>

text \<open>
  Broadcasting of two operands of one rank: an axis of length one is repeated along
  the other operand's axis. \<open>broadcast_shapes\<close> is the shape of the result,
  \<open>broadcast_index\<close> maps a position of the result to the position of an operand.
  (Every pair of operands that \<^verbatim>\<open>bpt.py\<close> combines has one rank by construction.)
  \<open>broadcast2\<close> is the element-wise binary operation; on operands that cannot be
  broadcast together JAX raises, which is \<open>broadcast_add\<close>'s \<open>ShapeError\<close>.
\<close>

definition broadcastable :: "nat list \<Rightarrow> nat list \<Rightarrow> bool" where
  "broadcastable s t \<longleftrightarrow> list_all2 (\<lambda>a b. a = b \<or> a = 1 \<or> b = 1) s t"

definition broadcast_shapes :: "nat list \<Rightarrow> nat list \<Rightarrow> nat list" where
  "broadcast_shapes s t = map2 (\<lambda>a b. if a = 1 then b else a) s t"

definition broadcast_index :: "nat list \<Rightarrow> nat list \<Rightarrow> nat list" where
  "broadcast_index s idx = map2 (\<lambda>n i. if n = 1 then 0 else i) s idx"

definition broadcast2 :: "('a \<Rightarrow> 'b \<Rightarrow> 'c) \<Rightarrow> 'a tensor \<Rightarrow> 'b tensor \<Rightarrow> 'c tensor" where
  "broadcast2 f a b =
     tabulate (broadcast_shapes (shape a) (shape b))
       (\<lambda>idx. f (elem a (broadcast_index (shape a) idx)) (elem b (broadcast_index (shape b) idx)))"

definition broadcast_add :: "fl tensor \<Rightarrow> fl tensor \<Rightarrow> error + fl tensor" where
  "broadcast_add a b =
     (if broadcastable (shape a) (shape b) then Inr (broadcast2 (+) a b) else Inl ShapeError)"

definition tmap :: "('a \<Rightarrow> 'b) \<Rightarrow> 'a tensor \<Rightarrow> 'b tensor" where
  "tmap f t = tabulate (shape t) (\<lambda>idx. f (elem t idx))"

definition zeros :: "nat list \<Rightarrow> fl tensor" where
  "zeros s = tabulate s (\<lambda>idx. 0)"

definition full :: "nat list \<Rightarrow> fl \<Rightarrow> fl tensor" where
  "full s x = tabulate s (\<lambda>idx. x)"

text \<open>
  \<open>reduce_last\<close> reduces the last axis (\<^verbatim>\<open>jnp.max(x, axis=-1)\<close>, \<^verbatim>\<open>x.sum(axis=-1)\<close>) and
  \<open>reduce_last_keepdims\<close> keeps it with length one; \<open>expand_last\<close> is \<^verbatim>\<open>x[..., None]\<close>.
\<close>

definition reduce_last :: "('a list \<Rightarrow> 'a) \<Rightarrow> 'a tensor \<Rightarrow> 'a tensor" where
  "reduce_last g t =
     tabulate (butlast (shape t)) (\<lambda>idx. g (map (\<lambda>k. elem t (idx @ [k])) [0..<last (shape t)]))"

definition expand_last :: "'a tensor \<Rightarrow> 'a tensor" where
  "expand_last t = with_shape t (shape t @ [1])"

definition reduce_last_keepdims :: "('a list \<Rightarrow> 'a) \<Rightarrow> 'a tensor \<Rightarrow> 'a tensor" where
  "reduce_last_keepdims g t = expand_last (reduce_last g t)"

text \<open>
  \<^verbatim>\<open>lax.dynamic_slice\<close>: a slice of the given sizes. A start is a 32-bit integer; a
  negative one counts from the end of its axis, and the result is clamped so that the
  slice lies inside the operand (\<open>clamp_start\<close>). It raises when a size exceeds the
  operand's. \<^verbatim>\<open>lax.dynamic_slice_in_dim\<close> slices one axis, here the last.
\<close>

definition clamp_start :: "int \<Rightarrow> nat \<Rightarrow> nat \<Rightarrow> nat" where
  "clamp_start start_index axis_len slice_size =
     nat (max 0 (min (if start_index < 0 then int32 (start_index + int axis_len) else start_index)
                     (int axis_len - int slice_size)))"

definition dynamic_slice :: "'a tensor \<Rightarrow> int list \<Rightarrow> nat list \<Rightarrow> error + 'a tensor" where
  "dynamic_slice operand start_indices slice_sizes =
     (if length start_indices = length (shape operand) \<and> list_all2 (\<le>) slice_sizes (shape operand)
      then Inr (tabulate slice_sizes
                 (\<lambda>idx. elem operand
                    (map2 (+)
                       (map (\<lambda>(start_index, axis_len, slice_size). clamp_start start_index axis_len slice_size)
                          (zip start_indices (zip (shape operand) slice_sizes)))
                       idx)))
      else Inl ShapeError)"

definition dynamic_slice_in_last_dim :: "'a tensor \<Rightarrow> int \<Rightarrow> nat \<Rightarrow> error + 'a tensor" where
  "dynamic_slice_in_last_dim operand start_index slice_size =
     (if shape operand = [] then Inl ShapeError
      else dynamic_slice operand
             (replicate (length (shape operand) - 1) 0 @ [start_index])
             (butlast (shape operand) @ [slice_size]))"

text \<open>
  The contractions, named by their \<^verbatim>\<open>einsum\<close> patterns. The lengths of the axes are
  read from the operands; the callers have reshaped the operands to fitting shapes
  before.
\<close>

definition einsum_bqhd_bkhd_bhqk :: "fl tensor \<Rightarrow> fl tensor \<Rightarrow> fl tensor" where
  "einsum_bqhd_bkhd_bhqk x y =
     tabulate [shape x ! 0, shape x ! 2, shape x ! 1, shape y ! 1]
       (\<lambda>idx. fl_sum (map (\<lambda>d. elem x [idx ! 0, idx ! 2, idx ! 1, d] * elem y [idx ! 0, idx ! 3, idx ! 1, d])
                         [0..<shape x ! 3]))"

definition einsum_bhqk_bkhd_bqhd :: "fl tensor \<Rightarrow> fl tensor \<Rightarrow> fl tensor" where
  "einsum_bhqk_bkhd_bqhd w y =
     tabulate [shape w ! 0, shape w ! 2, shape w ! 1, shape y ! 3]
       (\<lambda>idx. fl_sum (map (\<lambda>k. elem w [idx ! 0, idx ! 2, idx ! 1, k] * elem y [idx ! 0, k, idx ! 2, idx ! 3])
                         [0..<shape w ! 3]))"

definition einsum_bqhd_bkhd_bqhk :: "fl tensor \<Rightarrow> fl tensor \<Rightarrow> fl tensor" where
  "einsum_bqhd_bkhd_bqhk x y =
     tabulate [shape x ! 0, shape x ! 1, shape x ! 2, shape y ! 1]
       (\<lambda>idx. fl_sum (map (\<lambda>d. elem x [idx ! 0, idx ! 1, idx ! 2, d] * elem y [idx ! 0, idx ! 3, idx ! 2, d])
                         [0..<shape x ! 3]))"

definition einsum_bqhv_bvhd_bqhd :: "fl tensor \<Rightarrow> fl tensor \<Rightarrow> fl tensor" where
  "einsum_bqhv_bvhd_bqhd w y =
     tabulate [shape w ! 0, shape w ! 1, shape w ! 2, shape y ! 3]
       (\<lambda>idx. fl_sum (map (\<lambda>k. elem w [idx ! 0, idx ! 1, idx ! 2, k] * elem y [idx ! 0, k, idx ! 2, idx ! 3])
                         [0..<shape w ! 3]))"

definition einsum_bqhd_bqhd_bhq :: "fl tensor \<Rightarrow> fl tensor \<Rightarrow> fl tensor" where
  "einsum_bqhd_bqhd_bhq x y =
     tabulate [shape x ! 0, shape x ! 2, shape x ! 1]
       (\<lambda>idx. fl_sum (map (\<lambda>d. elem x [idx ! 0, idx ! 2, idx ! 1, d] * elem y [idx ! 0, idx ! 2, idx ! 1, d])
                         [0..<shape x ! 3]))"

definition einsum_bqhd_bhqk_bkhd :: "fl tensor \<Rightarrow> fl tensor \<Rightarrow> fl tensor" where
  "einsum_bqhd_bhqk_bkhd x w =
     tabulate [shape x ! 0, shape w ! 3, shape x ! 2, shape x ! 3]
       (\<lambda>idx. fl_sum (map (\<lambda>q. elem x [idx ! 0, q, idx ! 2, idx ! 3] * elem w [idx ! 0, idx ! 2, q, idx ! 1])
                         [0..<shape x ! 1]))"

definition einsum_bhqk_bqhd_bkhd :: "fl tensor \<Rightarrow> fl tensor \<Rightarrow> fl tensor" where
  "einsum_bhqk_bqhd_bkhd w x =
     tabulate [shape w ! 0, shape w ! 3, shape w ! 1, shape x ! 3]
       (\<lambda>idx. fl_sum (map (\<lambda>q. elem w [idx ! 0, idx ! 2, q, idx ! 1] * elem x [idx ! 0, q, idx ! 2, idx ! 3])
                         [0..<shape w ! 2]))"

text \<open>
  \<^verbatim>\<open>lax.scan\<close> with a carry and per-step outputs, over the list of the per-step
  inputs; a step that raises ends the scan. A scan without steps returns its initial
  carry.
\<close>

fun scan :: "('c \<Rightarrow> 'x \<Rightarrow> error + 'c \<times> 'y) \<Rightarrow> 'c \<Rightarrow> 'x list \<Rightarrow> error + 'c \<times> 'y list" where
  "scan f c [] = Inr (c, [])"
| "scan f c (x # xs) =
     (case f c x of
        Inl e \<Rightarrow> Inl e
      | Inr (c', y) \<Rightarrow>
          (case scan f c' xs of
             Inl e \<Rightarrow> Inl e
           | Inr (c'', ys) \<Rightarrow> Inr (c'', y # ys)))"


section \<open>The bias tile\<close>

text \<open>
  \<open>causal_mask_value\<close> is \<^verbatim>\<open>(query_idx < key_idx) * jnp.finfo(dtype).min\<close>, reshaped to
  \<open>(1, 1, query_chunk_size, key_chunk_size)\<close>, where \<open>query_idx\<close> is the column of the row
  numbers shifted by \<open>offset\<close> and \<open>key_idx\<close> is the row of the column numbers. Both are
  \<^verbatim>\<open>int32\<close> arrays, and so is \<open>offset\<close>: the shifted row number wraps around.
\<close>

definition causal_mask_value :: "nat \<Rightarrow> nat \<Rightarrow> int \<Rightarrow> dtype \<Rightarrow> fl tensor" where
  "causal_mask_value query_chunk_size key_chunk_size offset dtype =
     tabulate [1, 1, query_chunk_size, key_chunk_size]
       (\<lambda>idx. if int32 (int32 (int (idx ! 2)) + offset) < int32 (int (idx ! 3))
              then Fin (finfo_min dtype) else Fin 0)"

text \<open>
  \<open>chunk_attention_bias\<close> is \<^verbatim>\<open>_chunk_attention_bias\<close>. \<open>causal_layout\<close> is a string or
  \<^verbatim>\<open>None\<close>. The two tile numbers are traced \<^verbatim>\<open>int32\<close> values, so the offsets, their
  difference, and their quotient and remainder by \<open>block_size\<close> are \<^verbatim>\<open>int32\<close> values
  too; the quotient is rounded down and the remainder has the sign of the divisor, as
  \<open>div\<close> and \<open>mod\<close> on \<open>int\<close> are. The two assertions on \<open>block_size\<close> are evaluated on
  Python integers and raise for a chunk size of zero. What the division of a traced
  integer by a block size of zero gives is left to the backend; the model stops there
  with \<open>ZeroDivisionError\<close>.
\<close>

definition chunk_attention_bias ::
  "nat \<Rightarrow> nat \<Rightarrow> nat option \<Rightarrow> fl tensor option \<Rightarrow> bool \<Rightarrow> bool tensor option \<Rightarrow> real \<Rightarrow>
   string option \<Rightarrow> dtype \<Rightarrow> nat \<Rightarrow> nat \<Rightarrow> error + fl tensor" where
  "chunk_attention_bias query_chunk_size key_chunk_size block_size bias deterministic
       attn_dropout attn_pdrop causal_layout dtype query_chunk_idx key_chunk_idx =
     (let query_offset = int32 (int query_chunk_idx * int query_chunk_size);
          key_offset = int32 (int key_chunk_idx * int key_chunk_size)
      in
      case (case bias of
              None \<Rightarrow> Inr (zeros [1, 1, 1, 1])
            | Some b \<Rightarrow>
                (case shape b of
                   [b0, b1, b2, b3] \<Rightarrow>
                     dynamic_slice b [0, 0, query_offset, key_offset]
                       [b0, b1, min b2 query_chunk_size, min b3 key_chunk_size]
                 | _ \<Rightarrow> Inl ShapeError)) of
        Inl e \<Rightarrow> Inl e
      | Inr chunk_bias \<Rightarrow>
          (case (if causal_layout = Some ''normal'' then
                   broadcast_add chunk_bias
                     (causal_mask_value query_chunk_size key_chunk_size
                        (int32 (query_offset - key_offset)) dtype)
                 else if causal_layout = Some ''striped'' then
                   (case block_size of
                      None \<Rightarrow> Inl AssertionError
                    | Some bs \<Rightarrow>
                        if query_chunk_size = 0 then Inl ZeroDivisionError
                        else if bs mod query_chunk_size \<noteq> 0 then Inl AssertionError
                        else if key_chunk_size = 0 then Inl ZeroDivisionError
                        else if bs mod key_chunk_size \<noteq> 0 then Inl AssertionError
                        else if bs = 0 then Inl ZeroDivisionError
                        else
                          let query_block_idx = query_offset div int bs;
                              key_block_idx = key_offset div int bs;
                              query_offset_in_block = query_offset mod int bs;
                              key_offset_in_block = key_offset mod int bs;
                              exclude_diagonal = query_block_idx < key_block_idx;
                              offset = int32 (query_offset_in_block - key_offset_in_block
                                         - (if exclude_diagonal then 1 else 0))
                          in broadcast_add chunk_bias
                               (causal_mask_value query_chunk_size key_chunk_size offset dtype))
                 else if causal_layout = None then Inr chunk_bias
                 else Inl AssertionError) of
             Inl e \<Rightarrow> Inl e
           | Inr chunk_bias \<Rightarrow>
               if \<not> deterministic \<and> attn_pdrop > 0 then
                 (case attn_dropout of
                    None \<Rightarrow> Inl TypeError
                  | Some m \<Rightarrow>
                      (case shape m of
                         [m0, m1, m2, m3] \<Rightarrow>
                           (case dynamic_slice m [0, 0, query_offset, key_offset]
                                   [m0, m1, min m2 query_chunk_size, min m3 key_chunk_size] of
                              Inl e \<Rightarrow> Inl e
                            | Inr attn_dropout_slice \<Rightarrow>
                                broadcast_add chunk_bias
                                  (tmap (\<lambda>dropped. if dropped then Fin (finfo_min dtype) else Fin 0)
                                     attn_dropout_slice))
                       | _ \<Rightarrow> Inl ShapeError))
               else Inr chunk_bias))"

section \<open>Configuration and randomness\<close>

text \<open>
  The keyword arguments that the ring functions pass on as \<^verbatim>\<open>blockwise_kwargs\<close>.
  \<^verbatim>\<open>policy\<close>, \<^verbatim>\<open>precision\<close> and \<^verbatim>\<open>prevent_cse\<close> choose what the backward pass
  rematerialises and how a product is rounded; they have no counterpart in exact
  arithmetic and are left out. \<^verbatim>\<open>jax.random.split\<close> and \<^verbatim>\<open>jax.random.bernoulli\<close> are
  parameters of the model, and a key is a value of any type.
\<close>

record 'key rng_ops =
  rng_split :: "'key \<Rightarrow> 'key \<times> 'key"
  rng_bernoulli :: "'key \<Rightarrow> real \<Rightarrow> nat list \<Rightarrow> bool tensor"

record 'key blockwise_kwargs =
  kw_causal_layout :: "string option"
  kw_query_chunk_size :: nat
  kw_key_chunk_size :: nat
  kw_block_size :: "nat option"
  kw_deterministic :: bool
  kw_dropout_rng :: 'key
  kw_attn_pdrop :: real
  kw_dtype :: dtype

definition attn_dropout_mask ::
  "'key rng_ops \<Rightarrow> 'key blockwise_kwargs \<Rightarrow> nat list \<Rightarrow> bool tensor option" where
  "attn_dropout_mask rng kw s =
     (if \<not> kw_deterministic kw \<and> kw_attn_pdrop kw > 0
      then Some (rng_bernoulli rng (fst (rng_split rng (kw_dropout_rng kw))) (kw_attn_pdrop kw) s)
      else None)"

definition bias_broadcasts :: "fl tensor option \<Rightarrow> nat list \<Rightarrow> bool" where
  "bias_broadcasts bias s =
     (case bias of
        None \<Rightarrow> True
      | Some b \<Rightarrow> list_all (\<lambda>(bias_dim, broadcast_dim). bias_dim = 1 \<or> bias_dim = broadcast_dim)
                    (zip (shape b) s))"


text \<open>
  \<open>unpermuted_position\<close> is the position, in the original sequence, of the token that
  \<open>permute_tokens\<close> with the pattern \<^verbatim>\<open>b (n d) -> b (d n)\<close> puts at position \<open>p\<close>, when
  \<open>d = num_devices\<close> and \<open>n = block_size\<close> is the length of a participant's shard.
\<close>

definition unpermuted_position :: "nat \<Rightarrow> nat \<Rightarrow> nat \<Rightarrow> nat" where
  "unpermuted_position num_devices block_size p = (p mod block_size) * num_devices + p div block_size"

section \<open>The tiled forward pass\<close>

text \<open>
  \<open>fwd_scan_kv_block\<close> is the closure \<^verbatim>\<open>scan_kv_block\<close> of \<^verbatim>\<open>_blockwise_attention_fwd\<close>:
  it folds one key tile into the accumulator of one query tile. The variables the
  closure captures are its first arguments. \<^verbatim>\<open>lax.stop_gradient\<close> is the identity on
  values. Adding the bias tile must leave the shape of the scores unchanged, since
  the accumulator is the carry of a scan.
\<close>

definition fwd_scan_kv_block ::
  "(nat \<Rightarrow> nat \<Rightarrow> error + fl tensor) \<Rightarrow> fl \<Rightarrow> nat \<Rightarrow> nat \<Rightarrow> fl tensor \<Rightarrow> nat \<Rightarrow>
   fl tensor \<times> fl tensor \<times> fl tensor \<Rightarrow> fl tensor \<times> fl tensor \<times> nat \<Rightarrow>
   error + (fl tensor \<times> fl tensor \<times> fl tensor) \<times> unit" where
  "fwd_scan_kv_block chunk_bias_fn scale q_chunk_idx_start k_chunk_idx_start q_chunk q_chunk_idx
       carry scan_arg =
     (case carry of (numerator_chunk, denominator_chunk, prev_max_score_chunk) \<Rightarrow>
      case scan_arg of (k_chunk, value_chunk, k_chunk_idx) \<Rightarrow>
      let attn_weights = tmap (\<lambda>x. x / scale) (einsum_bqhd_bkhd_bhqk q_chunk k_chunk) in
      case chunk_bias_fn (q_chunk_idx_start + q_chunk_idx) (k_chunk_idx_start + k_chunk_idx) of
        Inl e \<Rightarrow> Inl e
      | Inr bias_chunk \<Rightarrow>
          if \<not> broadcastable (shape attn_weights) (shape bias_chunk)
             \<or> broadcast_shapes (shape attn_weights) (shape bias_chunk) \<noteq> shape attn_weights
          then Inl ShapeError
          else
            let attn_weights = broadcast2 (+) attn_weights bias_chunk;
                max_score_chunk =
                  broadcast2 fl_max prev_max_score_chunk (reduce_last fl_maximum attn_weights);
                exp_weights =
                  tmap fl_exp (broadcast2 (-) attn_weights (expand_last max_score_chunk));
                exp_values = einsum_bhqk_bkhd_bqhd exp_weights value_chunk;
                correction =
                  expand_last (transpose_axes [0, 2, 1]
                    (tmap fl_exp (broadcast2 (-) prev_max_score_chunk max_score_chunk)));
                numerator_chunk' =
                  broadcast2 (+) (broadcast2 (\<lambda>x y. x * y) numerator_chunk correction) exp_values;
                denominator_chunk' =
                  broadcast2 (+)
                    (broadcast2 (\<lambda>x y. x * y) denominator_chunk
                       (tmap fl_exp (broadcast2 (-) prev_max_score_chunk max_score_chunk)))
                    (reduce_last fl_sum exp_weights)
            in Inr ((numerator_chunk', denominator_chunk', max_score_chunk), ()))"

text \<open>
  \<open>fwd_skip_block\<close> is the value \<^verbatim>\<open>skip_block\<close> that \<^verbatim>\<open>skip_upper_half\<close> computes in
  \<^verbatim>\<open>_blockwise_attention_fwd\<close>. The tile numbers are \<^verbatim>\<open>int32\<close> values, so \<open>q_lo\<close>, \<open>k_lo\<close>
  and \<open>q_hi\<close> wrap around. With \<open>block_size\<close> \<^verbatim>\<open>None\<close> the modulus raises a \<^verbatim>\<open>TypeError\<close>;
  the remainder by a block size of zero is left to the backend, and the model stops
  there with \<open>ZeroDivisionError\<close>. \<open>fwd_skip_upper_half\<close> is \<^verbatim>\<open>skip_upper_half\<close>: \<^verbatim>\<open>lax.cond\<close> traces both
  branches, so what \<^verbatim>\<open>scan_kv_block\<close> raises is raised for a skipped pair as well.
\<close>

definition fwd_skip_block ::
  "string option \<Rightarrow> nat \<Rightarrow> nat \<Rightarrow> nat option \<Rightarrow> nat \<Rightarrow> nat \<Rightarrow> nat \<Rightarrow> nat \<Rightarrow> error + bool" where
  "fwd_skip_block causal_layout query_chunk_size key_chunk_size block_size
       q_chunk_idx_start k_chunk_idx_start q_chunk_idx k_chunk_idx =
     (if causal_layout = None then Inr False
      else
        let q_lo = int32 ((int q_chunk_idx_start + int q_chunk_idx) * int query_chunk_size);
            k_lo = int32 ((int k_chunk_idx_start + int k_chunk_idx) * int key_chunk_size)
        in if causal_layout = Some ''striped'' then
             (case block_size of
                None \<Rightarrow> Inl TypeError
              | Some bs \<Rightarrow>
                  if bs = 0 then Inl ZeroDivisionError
                  else Inr (int32 (q_lo mod int bs + int query_chunk_size) \<le> k_lo mod int bs))
           else if causal_layout = Some ''normal'' then
             Inr (int32 (q_lo + int query_chunk_size) \<le> k_lo)
           else Inl AssertionError)"

definition fwd_skip_upper_half ::
  "'key blockwise_kwargs \<Rightarrow> (nat \<Rightarrow> nat \<Rightarrow> error + fl tensor) \<Rightarrow> fl \<Rightarrow> nat \<Rightarrow> nat \<Rightarrow> fl tensor \<Rightarrow> nat \<Rightarrow>
   fl tensor \<times> fl tensor \<times> fl tensor \<Rightarrow> fl tensor \<times> fl tensor \<times> nat \<Rightarrow>
   error + (fl tensor \<times> fl tensor \<times> fl tensor) \<times> unit" where
  "fwd_skip_upper_half kw chunk_bias_fn scale q_chunk_idx_start k_chunk_idx_start q_chunk q_chunk_idx
       carry args =
     (case args of (key_chunk, value_chunk, k_chunk_idx) \<Rightarrow>
      case fwd_skip_block (kw_causal_layout kw) (kw_query_chunk_size kw) (kw_key_chunk_size kw)
             (kw_block_size kw) q_chunk_idx_start k_chunk_idx_start q_chunk_idx k_chunk_idx of
        Inl e \<Rightarrow> Inl e
      | Inr skip_block \<Rightarrow>
          (case fwd_scan_kv_block chunk_bias_fn scale q_chunk_idx_start k_chunk_idx_start
                  q_chunk q_chunk_idx carry args of
             Inl e \<Rightarrow> Inl e
           | Inr folded \<Rightarrow> if skip_block then Inr (carry, ()) else Inr folded))"

text \<open>
  \<open>blockwise_attention_fwd\<close> is \<^verbatim>\<open>_blockwise_attention_fwd\<close>. The three unpackings of
  \<^verbatim>\<open>.shape\<close> leave \<open>batch\<close>, \<open>num_heads\<close> and \<open>dim_per_head\<close> bound to the axes of \<open>v\<close>, and
  every \<^verbatim>\<open>reshape\<close> succeeds exactly when the number of elements fits. A tensor whose
  leading axis is scanned is the list of its slices. The quotient \<^verbatim>\<open>output_chunk\<close> that
  the scan body computes is dropped by the caller and is left out. The results are the
  numerator, the denominator and the running maximum.
\<close>

definition blockwise_attention_fwd ::
  "'key rng_ops \<Rightarrow> fl tensor \<Rightarrow> fl tensor \<Rightarrow> fl tensor \<Rightarrow> fl tensor \<times> fl tensor \<times> fl tensor \<Rightarrow>
   nat \<Rightarrow> nat \<Rightarrow> fl tensor option \<Rightarrow> 'key blockwise_kwargs \<Rightarrow>
   error + fl tensor \<times> fl tensor \<times> fl tensor" where
  "blockwise_attention_fwd rng q k v carry q_chunk_idx_start k_chunk_idx_start bias kw =
     (case (shape q, shape k, shape v) of
        ([q0, q_len, q2, q3], [k0, k1, k2, k3], [batch, kv_len, num_heads, dim_per_head]) \<Rightarrow>
          if kw_query_chunk_size kw = 0 \<or> kw_key_chunk_size kw = 0 then Inl ZeroDivisionError
          else
            let query_chunk_size = kw_query_chunk_size kw;
                key_chunk_size = kw_key_chunk_size kw;
                num_q = q_len div query_chunk_size;
                num_kv = kv_len div key_chunk_size;
                q_shape = [batch, num_q, query_chunk_size, num_heads, dim_per_head];
                kv_shape = [batch, num_kv, key_chunk_size, num_heads, dim_per_head];
                stat_shape = [batch, num_heads, num_q, query_chunk_size]
            in
            case carry of (numerator, denominator, max_score) \<Rightarrow>
            if prod_list (shape q) \<noteq> prod_list q_shape \<or> prod_list (shape k) \<noteq> prod_list kv_shape
               \<or> prod_list (shape v) \<noteq> prod_list kv_shape
               \<or> prod_list (shape numerator) \<noteq> prod_list q_shape
               \<or> prod_list (shape denominator) \<noteq> prod_list stat_shape
               \<or> prod_list (shape max_score) \<noteq> prod_list stat_shape
            then Inl ShapeError
            else if \<not> bias_broadcasts bias [batch, num_heads, q_len, kv_len] then Inl AssertionError
            else
              let q = transpose_axes [1, 0, 2, 3, 4] (with_shape q q_shape);
                  k = transpose_axes [1, 0, 2, 3, 4] (with_shape k kv_shape);
                  v = transpose_axes [1, 0, 2, 3, 4] (with_shape v kv_shape);
                  numerator = transpose_axes [1, 0, 2, 3, 4] (with_shape numerator q_shape);
                  denominator = transpose_axes [2, 0, 1, 3] (with_shape denominator stat_shape);
                  max_score = transpose_axes [2, 0, 1, 3] (with_shape max_score stat_shape);
                  scale = Fin (sqrt (real dim_per_head));
                  attn_dropout = attn_dropout_mask rng kw [batch, num_heads, q_len, kv_len];
                  chunk_bias_fn =
                    chunk_attention_bias query_chunk_size key_chunk_size (kw_block_size kw) bias
                      (kw_deterministic kw) attn_dropout (kw_attn_pdrop kw) (kw_causal_layout kw)
                      (kw_dtype kw);
                  scan_attention = (\<lambda>u q_chunk_idx.
                    case scan
                           (fwd_skip_upper_half kw chunk_bias_fn scale q_chunk_idx_start
                              k_chunk_idx_start (slice_axis 0 q q_chunk_idx) q_chunk_idx)
                           (slice_axis 0 numerator q_chunk_idx,
                            slice_axis 0 denominator q_chunk_idx,
                            slice_axis 0 max_score q_chunk_idx)
                           (map (\<lambda>j. (slice_axis 0 k j, slice_axis 0 v j, j)) [0..<num_kv]) of
                      Inl e \<Rightarrow> Inl e
                    | Inr (chunks, nothing) \<Rightarrow> Inr ((), chunks))
              in
              case scan scan_attention () [0..<num_q] of
                Inl e \<Rightarrow> Inl e
              | Inr (u, chunks) \<Rightarrow>
                  Inr (with_shape
                         (transpose_axes [1, 0, 2, 3, 4]
                            (stack_axis 0 [batch, query_chunk_size, num_heads, dim_per_head]
                               (map fst chunks)))
                         [batch, q_len, num_heads, dim_per_head],
                       with_shape
                         (transpose_axes [1, 2, 0, 3]
                            (stack_axis 0 [batch, num_heads, query_chunk_size]
                               (map (\<lambda>c. fst (snd c)) chunks)))
                         [batch, num_heads, q_len],
                       with_shape
                         (transpose_axes [1, 2, 0, 3]
                            (stack_axis 0 [batch, num_heads, query_chunk_size]
                               (map (\<lambda>c. snd (snd c)) chunks)))
                         [batch, num_heads, q_len])
      | _ \<Rightarrow> Inl ValueError)"

section \<open>The ring forward pass\<close>

text \<open>
  The participants of the ring run one program in lock step; participant \<open>r\<close> of
  \<open>axis_size\<close> holds the \<open>r\<close>-th entry of every list. \<open>ppermute\<close> is \<^verbatim>\<open>lax.ppermute\<close>:
  the destination of a pair receives the source's tensor, and a participant that is
  no pair's destination receives zeros. \<open>ring_perm\<close> is the permutation
  \<^verbatim>\<open>[(i, (i + 1) % axis_size) for i in range(axis_size)]\<close>.
\<close>

definition ring_perm :: "nat \<Rightarrow> (nat \<times> nat) list" where
  "ring_perm axis_size = map (\<lambda>i. (i, (i + 1) mod axis_size)) [0..<axis_size]"

definition ppermute :: "fl tensor list \<Rightarrow> (nat \<times> nat) list \<Rightarrow> fl tensor list" where
  "ppermute xs perm =
     map (\<lambda>j. case find (\<lambda>p. snd p = j) perm of
                 Some p \<Rightarrow> xs ! fst p
               | None \<Rightarrow> zeros (shape (xs ! j)))
       [0..<length xs]"

fun collect :: "(error + 'a) list \<Rightarrow> error + 'a list" where
  "collect [] = Inr []"
| "collect (x # xs) =
     (case x of
        Inl e \<Rightarrow> Inl e
      | Inr a \<Rightarrow> (case collect xs of Inl e \<Rightarrow> Inl e | Inr as \<Rightarrow> Inr (a # as)))"

text \<open>
  \<open>ring_fwd_scan_kv_block\<close> is the part of the closure \<^verbatim>\<open>scan_kv_block\<close> of
  \<^verbatim>\<open>_ring_attention_fwd\<close> that participant \<open>rank\<close> computes at hop \<open>idx\<close>, before the
  exchange. \<open>block_size\<close> and \<open>kv_len\<close> are the lengths of the participant's own query
  and key shards.
\<close>

definition ring_fwd_scan_kv_block ::
  "'key rng_ops \<Rightarrow> 'key blockwise_kwargs \<Rightarrow> nat \<Rightarrow> nat \<Rightarrow> fl tensor \<Rightarrow> fl tensor \<Rightarrow> nat \<Rightarrow> nat \<Rightarrow>
   fl tensor \<times> fl tensor \<times> fl tensor \<times> fl tensor \<times> fl tensor \<Rightarrow> nat \<Rightarrow>
   error + fl tensor \<times> fl tensor \<times> fl tensor \<times> fl tensor \<times> fl tensor" where
  "ring_fwd_scan_kv_block rng blockwise_kwargs axis_size rank q attn_bias block_size kv_len carry idx =
     (case carry of (prev_max_score, numerator, denominator, k, v) \<Rightarrow>
      let k_block_idx = nat ((int rank - int idx) mod int axis_size) in
      case dynamic_slice_in_last_dim attn_bias (int32 (int k_block_idx * int kv_len)) kv_len of
        Inl e \<Rightarrow> Inl e
      | Inr attn_bias_slice \<Rightarrow>
          if kw_query_chunk_size blockwise_kwargs = 0 \<or> kw_key_chunk_size blockwise_kwargs = 0
          then Inl ZeroDivisionError
          else
            let q_block_idx = rank;
                q_chunk_idx_start = q_block_idx * (block_size div kw_query_chunk_size blockwise_kwargs);
                k_chunk_idx_start = k_block_idx * (block_size div kw_key_chunk_size blockwise_kwargs)
            in case blockwise_attention_fwd rng q k v (numerator, denominator, prev_max_score)
                      q_chunk_idx_start k_chunk_idx_start (Some attn_bias_slice) blockwise_kwargs of
                 Inl e \<Rightarrow> Inl e
               | Inr (numerator', denominator', max_score) \<Rightarrow>
                   Inr (max_score, numerator', denominator', k, v))"

definition ring_fwd_hop ::
  "'key rng_ops \<Rightarrow> 'key blockwise_kwargs \<Rightarrow> fl tensor list \<Rightarrow> fl tensor list \<Rightarrow> nat list \<Rightarrow> nat list \<Rightarrow>
   (fl tensor \<times> fl tensor \<times> fl tensor \<times> fl tensor \<times> fl tensor) list \<Rightarrow> nat \<Rightarrow>
   error + (fl tensor \<times> fl tensor \<times> fl tensor \<times> fl tensor \<times> fl tensor) list \<times> unit" where
  "ring_fwd_hop rng blockwise_kwargs qs attn_biases block_sizes kv_lens carries idx =
     (let axis_size = length qs in
      case collect (map (\<lambda>rank. ring_fwd_scan_kv_block rng blockwise_kwargs axis_size rank
                                   (qs ! rank) (attn_biases ! rank) (block_sizes ! rank)
                                   (kv_lens ! rank) (carries ! rank) idx)
                      [0..<axis_size]) of
        Inl e \<Rightarrow> Inl e
      | Inr computed \<Rightarrow>
          let ks = ppermute (map (\<lambda>c. fst (snd (snd (snd c)))) computed) (ring_perm axis_size);
              vs = ppermute (map (\<lambda>c. snd (snd (snd (snd c)))) computed) (ring_perm axis_size)
          in Inr (map (\<lambda>rank. case computed ! rank of
                                 (max_score, numerator, denominator, k, v) \<Rightarrow>
                                   (max_score, numerator, denominator, ks ! rank, vs ! rank))
                    [0..<axis_size], ()))"

text \<open>
  \<open>ring_attention_fwd\<close> is \<^verbatim>\<open>_ring_attention_fwd\<close> on all participants: the lists hold the
  shards of the query, key, value and bias tensors. \<^verbatim>\<open>lax.psum(1, axis_name)\<close> is the
  number of participants and \<^verbatim>\<open>lax.axis_index(axis_name)\<close> a participant's rank; the
  lists all have that length. The flag \<open>float32_logits\<close> only selects a cast. For every participant the result is the
  output and the residuals \<open>(output, q, k, v, attn_bias, denominator, max_score)\<close> kept for
  the backward pass.
\<close>

definition ring_attention_fwd ::
  "'key rng_ops \<Rightarrow> fl tensor list \<Rightarrow> fl tensor list \<Rightarrow> fl tensor list \<Rightarrow> fl tensor list \<Rightarrow> bool \<Rightarrow>
   'key blockwise_kwargs \<Rightarrow>
   error + (fl tensor \<times> (fl tensor \<times> fl tensor \<times> fl tensor \<times> fl tensor \<times> fl tensor \<times> fl tensor \<times> fl tensor)) list" where
  "ring_attention_fwd rng qs ks vs attn_biases float32_logits blockwise_kwargs =
     (let axis_size = length qs in
      if \<not> list_all (\<lambda>t. length (shape t) = 4) (qs @ ks) then Inl ValueError
      else
        let init = map (\<lambda>rank.
                     let q_len = shape (qs ! rank) ! 1;
                         batch = shape (ks ! rank) ! 0;
                         num_heads = shape (ks ! rank) ! 2;
                         dim_per_head = shape (ks ! rank) ! 3
                     in (full [batch, num_heads, q_len] NInf,
                         zeros [batch, q_len, num_heads, dim_per_head],
                         zeros [batch, num_heads, q_len],
                         ks ! rank, vs ! rank))
                   [0..<axis_size]
        in
        case scan (ring_fwd_hop rng blockwise_kwargs qs attn_biases
                     (map (\<lambda>q. shape q ! 1) qs) (map (\<lambda>k. shape k ! 1) ks))
               init [0..<axis_size] of
          Inl e \<Rightarrow> Inl e
        | Inr (final, nothing) \<Rightarrow>
            Inr (map (\<lambda>rank.
                   case final ! rank of
                     (max_score, numerator, denominator, k, v) \<Rightarrow>
                       let output = broadcast2 (/) numerator
                                      (expand_last (transpose_axes [0, 2, 1] denominator))
                       in (output,
                           (output, qs ! rank, ks ! rank, vs ! rank, attn_biases ! rank,
                            denominator, max_score)))
                 [0..<axis_size]))"

text \<open>\<open>ring_attention\<close> returns the outputs of \<open>ring_attention_fwd\<close>.\<close>

definition ring_attention ::
  "'key rng_ops \<Rightarrow> fl tensor list \<Rightarrow> fl tensor list \<Rightarrow> fl tensor list \<Rightarrow> fl tensor list \<Rightarrow> bool \<Rightarrow>
   'key blockwise_kwargs \<Rightarrow> error + fl tensor list" where
  "ring_attention rng qs ks vs attn_biases float32_logits blockwise_kwargs =
     (case ring_attention_fwd rng qs ks vs attn_biases float32_logits blockwise_kwargs of
        Inl e \<Rightarrow> Inl e
      | Inr results \<Rightarrow> Inr (map fst results))"


section \<open>The tiled backward pass\<close>

text \<open>
  \<open>bwd_scan_kv_block\<close> is the closure \<^verbatim>\<open>scan_kv_block\<close> of \<^verbatim>\<open>_blockwise_attention_bwd\<close>: its
  carry is the query gradient of one query tile, and its output the pair of the key
  and value gradients that the query tile contributes to one key tile.
\<close>

definition bwd_scan_kv_block ::
  "(nat \<Rightarrow> nat \<Rightarrow> error + fl tensor) \<Rightarrow> fl \<Rightarrow> nat \<Rightarrow> nat \<Rightarrow> fl tensor \<Rightarrow> fl tensor \<Rightarrow> fl tensor \<Rightarrow>
   fl tensor \<Rightarrow> fl tensor \<Rightarrow> nat \<Rightarrow> fl tensor \<Rightarrow> fl tensor \<times> fl tensor \<times> nat \<Rightarrow>
   error + fl tensor \<times> (fl tensor \<times> fl tensor)" where
  "bwd_scan_kv_block chunk_bias_fn scale q_chunk_idx_start k_chunk_idx_start q_chunk g_chunk dl_part
       denominator_chunk max_score_chunk q_chunk_idx carry scan_arg =
     (case scan_arg of (k_chunk, value_chunk, k_chunk_idx) \<Rightarrow>
      let dq_chunk = carry;
          attn_weights = tmap (\<lambda>x. x / scale) (einsum_bqhd_bkhd_bhqk q_chunk k_chunk) in
      case chunk_bias_fn (q_chunk_idx_start + q_chunk_idx) (k_chunk_idx_start + k_chunk_idx) of
        Inl e \<Rightarrow> Inl e
      | Inr bias_chunk \<Rightarrow>
          if \<not> broadcastable (shape attn_weights) (shape bias_chunk)
             \<or> broadcast_shapes (shape attn_weights) (shape bias_chunk) \<noteq> shape attn_weights
          then Inl ShapeError
          else
            let attn_weights = broadcast2 (+) attn_weights bias_chunk;
                exp_weights =
                  broadcast2 (/)
                    (tmap fl_exp (broadcast2 (-) attn_weights (expand_last max_score_chunk)))
                    (expand_last denominator_chunk);
                ds = einsum_bqhd_bkhd_bhqk g_chunk value_chunk;
                dl = broadcast2 (\<lambda>x y. x * y) (broadcast2 (-) ds dl_part) exp_weights;
                dq_chunk' =
                  broadcast2 (+) dq_chunk (tmap (\<lambda>x. x / scale) (einsum_bhqk_bkhd_bqhd dl k_chunk));
                dk_chunk = tmap (\<lambda>x. x / scale) (einsum_bqhd_bhqk_bkhd q_chunk dl);
                dv_chunk = einsum_bhqk_bqhd_bkhd exp_weights g_chunk
            in Inr (dq_chunk', (dk_chunk, dv_chunk)))"

text \<open>
  \<open>bwd_skip_block\<close> is the value \<^verbatim>\<open>skip_block\<close> of \<^verbatim>\<open>skip_upper_half\<close> in
  \<^verbatim>\<open>_blockwise_attention_bwd\<close>, and \<open>bwd_skip_upper_half\<close> that closure. \<open>batch\<close>,
  \<open>num_heads\<close> and \<open>dim_per_head\<close> are the variables of the enclosing function that the
  closure reads for the shape of the two zero tiles. \<^verbatim>\<open>lax.cond\<close> traces both branches,
  so what \<^verbatim>\<open>scan_kv_block\<close> raises is raised for a skipped pair as well.
\<close>

definition bwd_skip_block ::
  "string option \<Rightarrow> nat \<Rightarrow> nat \<Rightarrow> nat option \<Rightarrow> nat \<Rightarrow> nat \<Rightarrow> nat \<Rightarrow> nat \<Rightarrow> error + bool" where
  "bwd_skip_block causal_layout query_chunk_size key_chunk_size block_size
       q_chunk_idx_start k_chunk_idx_start q_chunk_idx k_chunk_idx =
     (if causal_layout = None then Inr False
      else
        let q_lo = int32 ((int q_chunk_idx_start + int q_chunk_idx) * int query_chunk_size);
            k_lo = int32 ((int k_chunk_idx_start + int k_chunk_idx) * int key_chunk_size)
        in if causal_layout = Some ''striped'' then
             (case block_size of
                None \<Rightarrow> Inl TypeError
              | Some bs \<Rightarrow>
                  if bs = 0 then Inl ZeroDivisionError
                  else Inr (int32 (q_lo mod int bs + int query_chunk_size) \<le> k_lo mod int bs))
           else if causal_layout = Some ''normal'' then
             Inr (int32 (q_lo + int query_chunk_size) \<le> k_lo)
           else Inl AssertionError)"

definition bwd_skip_upper_half ::
  "'key blockwise_kwargs \<Rightarrow> nat \<Rightarrow> nat \<Rightarrow> nat \<Rightarrow> (nat \<Rightarrow> nat \<Rightarrow> error + fl tensor) \<Rightarrow> fl \<Rightarrow>
   nat \<Rightarrow> nat \<Rightarrow> fl tensor \<Rightarrow> fl tensor \<Rightarrow> fl tensor \<Rightarrow> fl tensor \<Rightarrow> fl tensor \<Rightarrow> nat \<Rightarrow>
   fl tensor \<Rightarrow> fl tensor \<times> fl tensor \<times> nat \<Rightarrow> error + fl tensor \<times> (fl tensor \<times> fl tensor)" where
  "bwd_skip_upper_half kw batch num_heads dim_per_head chunk_bias_fn scale q_chunk_idx_start
       k_chunk_idx_start q_chunk g_chunk dl_part denominator_chunk max_score_chunk q_chunk_idx
       carry args =
     (case args of (key_chunk, value_chunk, k_chunk_idx) \<Rightarrow>
      case bwd_skip_block (kw_causal_layout kw) (kw_query_chunk_size kw) (kw_key_chunk_size kw)
             (kw_block_size kw) q_chunk_idx_start k_chunk_idx_start q_chunk_idx k_chunk_idx of
        Inl e \<Rightarrow> Inl e
      | Inr skip_block \<Rightarrow>
          (case bwd_scan_kv_block chunk_bias_fn scale q_chunk_idx_start k_chunk_idx_start
                  q_chunk g_chunk dl_part denominator_chunk max_score_chunk q_chunk_idx carry args of
             Inl e \<Rightarrow> Inl e
           | Inr computed \<Rightarrow>
               if skip_block
               then Inr (carry,
                         (zeros [batch, kw_key_chunk_size kw, num_heads, dim_per_head],
                          zeros [batch, kw_key_chunk_size kw, num_heads, dim_per_head]))
               else Inr computed))"

text \<open>
  \<open>blockwise_attention_bwd\<close> is \<^verbatim>\<open>_blockwise_attention_bwd\<close>. Its carry holds the
  gradients accumulated so far and the forward pass's output, denominator and running
  maximum; it returns the gradients of the query, the key and the value.
\<close>

definition blockwise_attention_bwd ::
  "'key rng_ops \<Rightarrow> fl tensor \<Rightarrow> fl tensor \<Rightarrow> fl tensor \<Rightarrow> fl tensor \<Rightarrow>
   fl tensor \<times> fl tensor \<times> fl tensor \<times> fl tensor \<times> fl tensor \<times> fl tensor \<Rightarrow>
   nat \<Rightarrow> nat \<Rightarrow> fl tensor option \<Rightarrow> 'key blockwise_kwargs \<Rightarrow>
   error + fl tensor \<times> fl tensor \<times> fl tensor" where
  "blockwise_attention_bwd rng q k v g carry q_chunk_idx_start k_chunk_idx_start bias kw =
     (case (shape q, shape k, shape v) of
        ([q0, q_len, q2, q3], [k0, k1, k2, k3], [batch, kv_len, num_heads, dim_per_head]) \<Rightarrow>
          if kw_query_chunk_size kw = 0 \<or> kw_key_chunk_size kw = 0 then Inl ZeroDivisionError
          else
            let query_chunk_size = kw_query_chunk_size kw;
                key_chunk_size = kw_key_chunk_size kw;
                num_q = q_len div query_chunk_size;
                num_kv = kv_len div key_chunk_size;
                q_shape = [batch, num_q, query_chunk_size, num_heads, dim_per_head];
                kv_shape = [batch, num_kv, key_chunk_size, num_heads, dim_per_head];
                stat_shape = [batch, num_heads, num_q, query_chunk_size];
                tile_shape = [batch, key_chunk_size, num_heads, dim_per_head]
            in
            case carry of (dq, dk, dv, output, denominator, max_score) \<Rightarrow>
            if prod_list (shape g) \<noteq> prod_list q_shape \<or> prod_list (shape dq) \<noteq> prod_list q_shape
               \<or> prod_list (shape dk) \<noteq> prod_list kv_shape \<or> prod_list (shape dv) \<noteq> prod_list kv_shape
               \<or> prod_list (shape output) \<noteq> prod_list q_shape
               \<or> prod_list (shape denominator) \<noteq> prod_list stat_shape
               \<or> prod_list (shape max_score) \<noteq> prod_list stat_shape
               \<or> prod_list (shape q) \<noteq> prod_list q_shape \<or> prod_list (shape k) \<noteq> prod_list kv_shape
               \<or> prod_list (shape v) \<noteq> prod_list kv_shape
            then Inl ShapeError
            else if \<not> bias_broadcasts bias [batch, num_heads, q_len, kv_len] then Inl AssertionError
            else
              let g = transpose_axes [1, 0, 2, 3, 4] (with_shape g q_shape);
                  dq = transpose_axes [1, 0, 2, 3, 4] (with_shape dq q_shape);
                  dk = transpose_axes [1, 0, 2, 3, 4] (with_shape dk kv_shape);
                  dv = transpose_axes [1, 0, 2, 3, 4] (with_shape dv kv_shape);
                  output = transpose_axes [1, 0, 2, 3, 4] (with_shape output q_shape);
                  denominator = transpose_axes [2, 0, 1, 3] (with_shape denominator stat_shape);
                  max_score = transpose_axes [2, 0, 1, 3] (with_shape max_score stat_shape);
                  q = transpose_axes [1, 0, 2, 3, 4] (with_shape q q_shape);
                  k = transpose_axes [1, 0, 2, 3, 4] (with_shape k kv_shape);
                  v = transpose_axes [1, 0, 2, 3, 4] (with_shape v kv_shape);
                  scale = Fin (sqrt (real dim_per_head));
                  attn_dropout = attn_dropout_mask rng kw [batch, num_heads, q_len, kv_len];
                  chunk_bias_fn =
                    chunk_attention_bias query_chunk_size key_chunk_size (kw_block_size kw) bias
                      (kw_deterministic kw) attn_dropout (kw_attn_pdrop kw) (kw_causal_layout kw)
                      (kw_dtype kw);
                  scan_attention = (\<lambda>carry q_chunk_idx.
                    case carry of (dk, dv) \<Rightarrow>
                    let q_chunk = slice_axis 0 q q_chunk_idx;
                        dq_chunk = slice_axis 0 dq q_chunk_idx;
                        g_chunk = slice_axis 0 g q_chunk_idx;
                        output_chunk = slice_axis 0 output q_chunk_idx;
                        denominator_chunk = slice_axis 0 denominator q_chunk_idx;
                        max_score_chunk = slice_axis 0 max_score q_chunk_idx;
                        dl_part = expand_last (einsum_bqhd_bqhd_bhq g_chunk output_chunk)
                    in
                    case scan
                           (bwd_skip_upper_half kw batch num_heads dim_per_head chunk_bias_fn scale
                              q_chunk_idx_start k_chunk_idx_start q_chunk g_chunk dl_part
                              denominator_chunk max_score_chunk q_chunk_idx)
                           dq_chunk
                           (map (\<lambda>j. (slice_axis 0 k j, slice_axis 0 v j, j)) [0..<num_kv]) of
                      Inl e \<Rightarrow> Inl e
                    | Inr (dq_chunk', parts) \<Rightarrow>
                        Inr ((broadcast2 (+) dk (stack_axis 0 tile_shape (map fst parts)),
                              broadcast2 (+) dv (stack_axis 0 tile_shape (map snd parts))),
                             dq_chunk'))
              in
              case scan scan_attention (dk, dv) [0..<num_q] of
                Inl e \<Rightarrow> Inl e
              | Inr ((dk', dv'), dq_chunks) \<Rightarrow>
                  Inr (with_shape
                         (transpose_axes [1, 0, 2, 3, 4]
                            (stack_axis 0 [batch, query_chunk_size, num_heads, dim_per_head] dq_chunks))
                         [batch, q_len, num_heads, dim_per_head],
                       with_shape (transpose_axes [1, 0, 2, 3, 4] dk')
                         [batch, kv_len, num_heads, dim_per_head],
                       with_shape (transpose_axes [1, 0, 2, 3, 4] dv')
                         [batch, kv_len, num_heads, dim_per_head])
      | _ \<Rightarrow> Inl ValueError)"

section \<open>The ring backward pass\<close>

text \<open>
  \<open>ring_bwd_scan_kv_block\<close> is what participant \<open>rank\<close> computes at hop \<open>idx\<close> of
  \<^verbatim>\<open>_ring_attention_bwd\<close> before the exchange, \<open>ring_bwd_hop\<close> the hop of all participants
  with the exchange of the key and value shards and of their gradients, and
  \<open>ring_attention_bwd\<close> the whole pass: \<open>res\<close> holds every participant's residuals
  \<open>(output, q, k, v, attn_bias, denominator, max_score)\<close> and \<open>gs\<close> the upstream gradients.
\<close>

definition ring_bwd_scan_kv_block ::
  "'key rng_ops \<Rightarrow> 'key blockwise_kwargs \<Rightarrow> nat \<Rightarrow> nat \<Rightarrow> fl tensor \<Rightarrow> fl tensor \<Rightarrow> fl tensor \<Rightarrow>
   fl tensor \<Rightarrow> fl tensor \<Rightarrow> fl tensor \<Rightarrow> nat \<Rightarrow> nat \<Rightarrow>
   fl tensor \<times> fl tensor \<times> fl tensor \<times> fl tensor \<times> fl tensor \<Rightarrow> nat \<Rightarrow>
   error + fl tensor \<times> fl tensor \<times> fl tensor \<times> fl tensor \<times> fl tensor" where
  "ring_bwd_scan_kv_block rng blockwise_kwargs axis_size rank q g output denominator max_score
       attn_bias block_size kv_len carry idx =
     (case carry of (dq, dk, dv, k, v) \<Rightarrow>
      let k_block_idx = nat ((int rank - int idx) mod int axis_size) in
      case dynamic_slice_in_last_dim attn_bias (int32 (int k_block_idx * int kv_len)) kv_len of
        Inl e \<Rightarrow> Inl e
      | Inr attn_bias_slice \<Rightarrow>
          if kw_query_chunk_size blockwise_kwargs = 0 \<or> kw_key_chunk_size blockwise_kwargs = 0
          then Inl ZeroDivisionError
          else
            let q_block_idx = rank;
                q_chunk_idx_start = q_block_idx * (block_size div kw_query_chunk_size blockwise_kwargs);
                k_chunk_idx_start = k_block_idx * (block_size div kw_key_chunk_size blockwise_kwargs)
            in case blockwise_attention_bwd rng q k v g (dq, dk, dv, output, denominator, max_score)
                      q_chunk_idx_start k_chunk_idx_start (Some attn_bias_slice) blockwise_kwargs of
                 Inl e \<Rightarrow> Inl e
               | Inr (dq', dk', dv') \<Rightarrow> Inr (dq', dk', dv', k, v))"

definition ring_bwd_hop ::
  "'key rng_ops \<Rightarrow> 'key blockwise_kwargs \<Rightarrow>
   (fl tensor \<times> fl tensor \<times> fl tensor \<times> fl tensor \<times> fl tensor \<times> fl tensor \<times> fl tensor) list \<Rightarrow>
   fl tensor list \<Rightarrow>
   (fl tensor \<times> fl tensor \<times> fl tensor \<times> fl tensor \<times> fl tensor) list \<Rightarrow> nat \<Rightarrow>
   error + (fl tensor \<times> fl tensor \<times> fl tensor \<times> fl tensor \<times> fl tensor) list \<times> unit" where
  "ring_bwd_hop rng blockwise_kwargs res gs carries idx =
     (let axis_size = length res in
      case collect (map (\<lambda>rank.
                      case res ! rank of
                        (output, q, k, v, attn_bias, denominator, max_score) \<Rightarrow>
                          ring_bwd_scan_kv_block rng blockwise_kwargs axis_size rank q (gs ! rank)
                            output denominator max_score attn_bias (shape q ! 1) (shape k ! 1)
                            (carries ! rank) idx)
                      [0..<axis_size]) of
        Inl e \<Rightarrow> Inl e
      | Inr computed \<Rightarrow>
          let ks = ppermute (map (\<lambda>c. fst (snd (snd (snd c)))) computed) (ring_perm axis_size);
              vs = ppermute (map (\<lambda>c. snd (snd (snd (snd c)))) computed) (ring_perm axis_size);
              dks = ppermute (map (\<lambda>c. fst (snd c)) computed) (ring_perm axis_size);
              dvs = ppermute (map (\<lambda>c. fst (snd (snd c))) computed) (ring_perm axis_size)
          in Inr (map (\<lambda>rank. (fst (computed ! rank), dks ! rank, dvs ! rank, ks ! rank, vs ! rank))
                    [0..<axis_size], ()))"

definition ring_attention_bwd ::
  "'key rng_ops \<Rightarrow> bool \<Rightarrow> 'key blockwise_kwargs \<Rightarrow>
   (fl tensor \<times> fl tensor \<times> fl tensor \<times> fl tensor \<times> fl tensor \<times> fl tensor \<times> fl tensor) list \<Rightarrow>
   fl tensor list \<Rightarrow> error + (fl tensor \<times> fl tensor \<times> fl tensor) list" where
  "ring_attention_bwd rng float32_logits blockwise_kwargs res gs =
     (let axis_size = length res in
      if \<not> list_all (\<lambda>r. case r of (output, q, k, v, attn_bias, denominator, max_score) \<Rightarrow>
                          length (shape q) = 4 \<and> length (shape k) = 4) res
      then Inl ValueError
      else
        let init = map (\<lambda>r. case r of (output, q, k, v, attn_bias, denominator, max_score) \<Rightarrow>
                           (zeros (shape q), zeros (shape k), zeros (shape v), k, v)) res
        in
        case scan (ring_bwd_hop rng blockwise_kwargs res gs) init [0..<axis_size] of
          Inl e \<Rightarrow> Inl e
        | Inr (final, nothing) \<Rightarrow>
            Inr (map (\<lambda>c. case c of (dq, dk, dv, k, v) \<Rightarrow> (dq, dk, dv)) final))"


section \<open>The single-device entry point\<close>

text \<open>
  \<open>attn_scan_kv_block\<close> is the closure \<^verbatim>\<open>scan_kv_block\<close> of \<^verbatim>\<open>blockwise_attn\<close>. Here the
  scores have the layout \<open>(batch, query, head, key)\<close>, so the bias tile has its axes 1
  and 2 exchanged, and the denominator and the running maximum are kept with the
  shapes \<open>(batch, query, head, dim)\<close> and \<open>(batch, query, head, 1)\<close>.
\<close>

definition attn_scan_kv_block ::
  "(nat \<Rightarrow> nat \<Rightarrow> error + fl tensor) \<Rightarrow> fl tensor \<Rightarrow> nat \<Rightarrow>
   fl tensor \<times> fl tensor \<times> fl tensor \<Rightarrow> fl tensor \<times> fl tensor \<times> nat \<Rightarrow>
   error + (fl tensor \<times> fl tensor \<times> fl tensor) \<times> unit" where
  "attn_scan_kv_block chunk_bias_fn query_chunk query_chunk_idx carry args =
     (case args of (key_chunk, value_chunk, key_chunk_idx) \<Rightarrow>
      case carry of (numerator, denominator, prev_max_score) \<Rightarrow>
      let attn_weights = einsum_bqhd_bkhd_bqhk query_chunk key_chunk in
      case chunk_bias_fn query_chunk_idx key_chunk_idx of
        Inl e \<Rightarrow> Inl e
      | Inr bias_chunk \<Rightarrow>
          if length (shape bias_chunk) \<noteq> 4 then Inl ShapeError
          else
            let bias_chunk = transpose_axes [0, 2, 1, 3] bias_chunk in
            if \<not> broadcastable (shape attn_weights) (shape bias_chunk)
               \<or> broadcast_shapes (shape attn_weights) (shape bias_chunk) \<noteq> shape attn_weights
            then Inl ShapeError
            else
              let attn_weights = broadcast2 (+) attn_weights bias_chunk;
                  max_score = reduce_last_keepdims fl_maximum attn_weights;
                  max_score = broadcast2 fl_max prev_max_score max_score;
                  exp_weights = tmap fl_exp (broadcast2 (-) attn_weights max_score);
                  exp_values = einsum_bqhv_bvhd_bqhd exp_weights value_chunk;
                  correction = tmap fl_exp (broadcast2 (-) prev_max_score max_score);
                  numerator' = broadcast2 (+) (broadcast2 (\<lambda>x y. x * y) numerator correction) exp_values;
                  denominator' =
                    broadcast2 (+) (broadcast2 (\<lambda>x y. x * y) denominator correction)
                      (reduce_last_keepdims fl_sum exp_weights)
              in Inr ((numerator', denominator', max_score), ()))"

text \<open>
  \<open>attn_skip_block\<close> is the value \<^verbatim>\<open>skip_block\<close> of \<^verbatim>\<open>skip_upper_half\<close> in \<^verbatim>\<open>blockwise_attn\<close>: it
  compares the numbers of the two tiles, which are \<^verbatim>\<open>int32\<close> values.
\<close>

definition attn_skip_block :: "bool \<Rightarrow> nat \<Rightarrow> nat \<Rightarrow> bool" where
  "attn_skip_block causal query_chunk_idx key_chunk_idx =
     (if causal then int32 (int query_chunk_idx) < int32 (int key_chunk_idx) else False)"

definition attn_skip_upper_half ::
  "bool \<Rightarrow> (nat \<Rightarrow> nat \<Rightarrow> error + fl tensor) \<Rightarrow> fl tensor \<Rightarrow> nat \<Rightarrow>
   fl tensor \<times> fl tensor \<times> fl tensor \<Rightarrow> fl tensor \<times> fl tensor \<times> nat \<Rightarrow>
   error + (fl tensor \<times> fl tensor \<times> fl tensor) \<times> unit" where
  "attn_skip_upper_half causal chunk_bias_fn query_chunk query_chunk_idx carry args =
     (case args of (key_chunk, value_chunk, key_chunk_idx) \<Rightarrow>
      let skip_block = attn_skip_block causal query_chunk_idx key_chunk_idx in
      case attn_scan_kv_block chunk_bias_fn query_chunk query_chunk_idx carry args of
        Inl e \<Rightarrow> Inl e
      | Inr folded \<Rightarrow> if skip_block then Inr (carry, ()) else Inr folded)"

text \<open>
  \<open>blockwise_attn\<close> is \<^verbatim>\<open>blockwise_attn\<close>. The query is divided by the square root of its
  own last axis first. The dropout mask is drawn as in the other passes, from the
  arguments \<open>deterministic\<close>, \<open>dropout_rng\<close> and \<open>attn_pdrop\<close>.
\<close>

definition blockwise_attn ::
  "'key rng_ops \<Rightarrow> fl tensor \<Rightarrow> fl tensor \<Rightarrow> fl tensor \<Rightarrow> fl tensor option \<Rightarrow> bool \<Rightarrow> 'key \<Rightarrow> real \<Rightarrow>
   bool \<Rightarrow> nat \<Rightarrow> nat \<Rightarrow> dtype \<Rightarrow> bool \<Rightarrow> error + fl tensor" where
  "blockwise_attn rng query key value bias deterministic dropout_rng attn_pdrop causal
       query_chunk_size key_chunk_size dtype float32_logits =
     (if shape query = [] then Inl IndexError
      else
        let query = tmap (\<lambda>x. x / Fin (sqrt (real (last (shape query))))) query in
        case (shape query, shape key, shape value) of
          ([q0, q_len, q2, q3], [k0, k1, k2, k3], [batch, kv_len, num_heads, dim_per_head]) \<Rightarrow>
            if query_chunk_size = 0 \<or> key_chunk_size = 0 then Inl ZeroDivisionError
            else
              let num_q = q_len div query_chunk_size;
                  num_kv = kv_len div key_chunk_size;
                  q_shape = [batch, num_q, query_chunk_size, num_heads, dim_per_head];
                  kv_shape = [batch, num_kv, key_chunk_size, num_heads, dim_per_head]
              in
              if prod_list (shape query) \<noteq> prod_list q_shape
                 \<or> prod_list (shape key) \<noteq> prod_list kv_shape
                 \<or> prod_list (shape value) \<noteq> prod_list kv_shape
              then Inl ShapeError
              else if \<not> bias_broadcasts bias [batch, num_heads, q_len, kv_len] then Inl AssertionError
              else
                let query = transpose_axes [1, 0, 2, 3, 4] (with_shape query q_shape);
                    key = transpose_axes [1, 0, 2, 3, 4] (with_shape key kv_shape);
                    value = transpose_axes [1, 0, 2, 3, 4] (with_shape value kv_shape);
                    attn_dropout =
                      (if \<not> deterministic \<and> attn_pdrop > 0
                       then Some (rng_bernoulli rng (fst (rng_split rng dropout_rng)) attn_pdrop
                                    [batch, num_heads, q_len, kv_len])
                       else None);
                    chunk_bias_fn =
                      chunk_attention_bias query_chunk_size key_chunk_size None bias deterministic
                        attn_dropout attn_pdrop (if causal then Some ''normal'' else None) dtype;
                    init_carry =
                      (zeros [batch, query_chunk_size, num_heads, dim_per_head],
                       zeros [batch, query_chunk_size, num_heads, dim_per_head],
                       tmap (\<lambda>x. NInf * x) (full [batch, query_chunk_size, num_heads, 1] 1));
                    scan_attention = (\<lambda>u query_chunk_idx.
                      case scan
                             (attn_skip_upper_half causal chunk_bias_fn
                                (slice_axis 0 query query_chunk_idx) query_chunk_idx)
                             init_carry
                             (map (\<lambda>j. (slice_axis 0 key j, slice_axis 0 value j, j)) [0..<num_kv]) of
                        Inl e \<Rightarrow> Inl e
                      | Inr ((numerator, denominator, max_score), nothing) \<Rightarrow>
                          Inr ((), broadcast2 (/) numerator denominator))
                in
                case scan scan_attention () [0..<num_q] of
                  Inl e \<Rightarrow> Inl e
                | Inr (u, outputs) \<Rightarrow>
                    Inr (with_shape
                           (transpose_axes [1, 0, 2, 3, 4]
                              (stack_axis 0 [batch, query_chunk_size, num_heads, dim_per_head] outputs))
                           [batch, q_len, num_heads, dim_per_head])
        | _ \<Rightarrow> Inl ValueError)"

text \<open>
  The reference of claim C2, in the words of the specification: dense
  scaled-dot-product attention \<open>softmax(Q K\<^sup>T / sqrt(head_dim)) V\<close> on real tensors, with
  the whole row of scores at once. \<open>dense_scores\<close> is a row of the score matrix,
  \<open>softmax\<close> the plain quotient of exponentials.
\<close>

definition dense_scores :: "real tensor \<Rightarrow> real tensor \<Rightarrow> nat \<Rightarrow> nat \<Rightarrow> nat \<Rightarrow> real list" where
  "dense_scores q k b i h =
     map (\<lambda>j. (\<Sum>d\<leftarrow>[0..<shape q ! 3]. elem q [b, i, h, d] * elem k [b, j, h, d])
                / sqrt (real (shape q ! 3)))
       [0..<shape k ! 1]"

definition softmax :: "real list \<Rightarrow> real list" where
  "softmax xs = map (\<lambda>x. exp x / (\<Sum>y\<leftarrow>xs. exp y)) xs"

definition dense_attention :: "real tensor \<Rightarrow> real tensor \<Rightarrow> real tensor \<Rightarrow> real tensor" where
  "dense_attention q k v =
     tabulate (shape q)
       (\<lambda>idx. \<Sum>j\<leftarrow>[0..<shape k ! 1].
                 softmax (dense_scores q k (idx ! 0) (idx ! 1) (idx ! 2)) ! j
                   * elem v [idx ! 0, j, idx ! 2, idx ! 3])"


section \<open>The accumulator's meaning\<close>

text \<open>
  What the accumulator of one row of queries stands for. After some entries with the
  scores \<open>s\<close> and the value rows \<open>v\<close> have been folded in, write \<open>Z\<close> for the sum of the
  \<open>exp s\<close> and \<open>N d\<close> for the sum of the \<open>exp s * v d\<close>. \<open>row_ok Z N D m den num\<close> says that
  the running maximum \<open>m\<close>, the denominator \<open>den\<close> and the numerator \<open>num\<close> hold these sums
  scaled by \<open>exp (- M)\<close> for the finite running maximum \<open>M\<close>, or that nothing has been
  folded yet and the accumulator is in its initial state. \<open>tile_ok\<close> says so for every
  row of a tile (or of a whole shard), \<open>fin4\<close> that a tensor of four axes holds the finite
  values \<open>f\<close>, \<open>bias_tile_ok\<close> that a bias tile broadcasts to the scores of a tile pair
  and adds the finite values \<open>\<beta>\<close>, and \<open>tile_score\<close> is the scaled dot product plus the bias.
\<close>

definition row_ok :: "real \<Rightarrow> (nat \<Rightarrow> real) \<Rightarrow> nat \<Rightarrow> fl \<Rightarrow> fl \<Rightarrow> (nat \<Rightarrow> fl) \<Rightarrow> bool" where
  "row_ok Z N D m den num \<longleftrightarrow>
     (m = NInf \<and> Z = 0 \<and> den = Fin 0 \<and> (\<forall>d<D. N d = 0 \<and> num d = Fin 0))
     \<or> (\<exists>M. m = Fin M \<and> 0 < Z \<and> den = Fin (exp (- M) * Z) \<and> (\<forall>d<D. num d = Fin (exp (- M) * N d)))"

definition fin4 :: "fl tensor \<Rightarrow> nat \<Rightarrow> nat \<Rightarrow> nat \<Rightarrow> nat \<Rightarrow> (nat \<Rightarrow> nat \<Rightarrow> nat \<Rightarrow> nat \<Rightarrow> real) \<Rightarrow> bool" where
  "fin4 t n0 n1 n2 n3 f \<longleftrightarrow>
     shape t = [n0, n1, n2, n3]
     \<and> (\<forall>a<n0. \<forall>b<n1. \<forall>c<n2. \<forall>d<n3. elem t [a, b, c, d] = Fin (f a b c d))"

definition tile_ok ::
  "nat \<Rightarrow> nat \<Rightarrow> nat \<Rightarrow> nat \<Rightarrow> (nat \<Rightarrow> nat \<Rightarrow> nat \<Rightarrow> real) \<Rightarrow> (nat \<Rightarrow> nat \<Rightarrow> nat \<Rightarrow> nat \<Rightarrow> real) \<Rightarrow>
   fl tensor \<times> fl tensor \<times> fl tensor \<Rightarrow> bool" where
  "tile_ok B H qc D Z N carry \<longleftrightarrow>
     (case carry of (numerator_chunk, denominator_chunk, max_score_chunk) \<Rightarrow>
        shape numerator_chunk = [B, qc, H, D] \<and> shape denominator_chunk = [B, H, qc]
        \<and> shape max_score_chunk = [B, H, qc]
        \<and> (\<forall>b<B. \<forall>h<H. \<forall>i<qc.
              row_ok (Z b h i) (N b h i) D (elem max_score_chunk [b, h, i])
                (elem denominator_chunk [b, h, i]) (\<lambda>d. elem numerator_chunk [b, i, h, d])))"

definition bias_tile_ok ::
  "nat \<Rightarrow> nat \<Rightarrow> nat \<Rightarrow> nat \<Rightarrow> fl tensor \<Rightarrow> (nat \<Rightarrow> nat \<Rightarrow> nat \<Rightarrow> nat \<Rightarrow> real) \<Rightarrow> bool" where
  "bias_tile_ok B H qc kc T \<beta> \<longleftrightarrow>
     broadcastable [B, H, qc, kc] (shape T)
     \<and> broadcast_shapes [B, H, qc, kc] (shape T) = [B, H, qc, kc]
     \<and> (\<forall>b<B. \<forall>h<H. \<forall>i<qc. \<forall>j<kc.
           elem T (broadcast_index (shape T) [b, h, i, j]) = Fin (\<beta> b h i j))"

definition tile_score ::
  "nat \<Rightarrow> (nat \<Rightarrow> nat \<Rightarrow> nat \<Rightarrow> nat \<Rightarrow> real) \<Rightarrow> (nat \<Rightarrow> nat \<Rightarrow> nat \<Rightarrow> nat \<Rightarrow> real) \<Rightarrow>
   (nat \<Rightarrow> nat \<Rightarrow> nat \<Rightarrow> nat \<Rightarrow> real) \<Rightarrow> nat \<Rightarrow> nat \<Rightarrow> nat \<Rightarrow> nat \<Rightarrow> real" where
  "tile_score D Q K \<beta> b h i j =
     (\<Sum>d\<leftarrow>[0..<D]. Q b i h d * K b j h d) / sqrt (real D) + \<beta> b h i j"

text \<open>
  The same for the accumulator of \<^verbatim>\<open>blockwise_attn\<close>, whose denominator has the shape of
  the numerator and whose running maximum keeps a last axis of length one.
  \<open>attn_score\<close> is the dot product of an already scaled query with a key, plus the
  bias; \<open>attn_Z\<close> and \<open>attn_N\<close> are the two sums over the tiles \<^verbatim>\<open>blockwise_attn\<close> does not
  skip.
\<close>

definition attn_tile_ok ::
  "nat \<Rightarrow> nat \<Rightarrow> nat \<Rightarrow> nat \<Rightarrow> (nat \<Rightarrow> nat \<Rightarrow> nat \<Rightarrow> real) \<Rightarrow> (nat \<Rightarrow> nat \<Rightarrow> nat \<Rightarrow> nat \<Rightarrow> real) \<Rightarrow>
   fl tensor \<times> fl tensor \<times> fl tensor \<Rightarrow> bool" where
  "attn_tile_ok B H qc D Z N carry \<longleftrightarrow>
     (case carry of (numerator, denominator, max_score) \<Rightarrow>
        shape numerator = [B, qc, H, D] \<and> shape denominator = [B, qc, H, D]
        \<and> shape max_score = [B, qc, H, 1]
        \<and> (\<forall>b<B. \<forall>i<qc. \<forall>h<H. \<forall>d<D.
              row_ok (Z b h i) (N b h i) D (elem max_score [b, i, h, 0])
                (elem denominator [b, i, h, d]) (\<lambda>d'. elem numerator [b, i, h, d'])))"

definition attn_bias_tile_ok ::
  "nat \<Rightarrow> nat \<Rightarrow> nat \<Rightarrow> nat \<Rightarrow> fl tensor \<Rightarrow> (nat \<Rightarrow> nat \<Rightarrow> nat \<Rightarrow> nat \<Rightarrow> real) \<Rightarrow> bool" where
  "attn_bias_tile_ok B H qc kc T \<beta> \<longleftrightarrow>
     length (shape T) = 4
     \<and> broadcastable [B, qc, H, kc] (shape (transpose_axes [0, 2, 1, 3] T))
     \<and> broadcast_shapes [B, qc, H, kc] (shape (transpose_axes [0, 2, 1, 3] T)) = [B, qc, H, kc]
     \<and> (\<forall>b<B. \<forall>i<qc. \<forall>h<H. \<forall>j<kc.
           elem (transpose_axes [0, 2, 1, 3] T)
             (broadcast_index (shape (transpose_axes [0, 2, 1, 3] T)) [b, i, h, j]) = Fin (\<beta> b h i j))"

definition attn_score ::
  "nat \<Rightarrow> (nat \<Rightarrow> nat \<Rightarrow> nat \<Rightarrow> nat \<Rightarrow> real) \<Rightarrow> (nat \<Rightarrow> nat \<Rightarrow> nat \<Rightarrow> nat \<Rightarrow> real) \<Rightarrow>
   (nat \<Rightarrow> nat \<Rightarrow> nat \<Rightarrow> nat \<Rightarrow> real) \<Rightarrow> nat \<Rightarrow> nat \<Rightarrow> nat \<Rightarrow> nat \<Rightarrow> real" where
  "attn_score D Q K \<beta> b h i j = (\<Sum>d\<leftarrow>[0..<D]. Q b i h d * K b j h d) + \<beta> b h i j"

definition attn_Z ::
  "bool \<Rightarrow> nat \<Rightarrow> nat \<Rightarrow> nat \<Rightarrow> nat \<Rightarrow> (nat \<Rightarrow> nat \<Rightarrow> nat \<Rightarrow> nat \<Rightarrow> real) \<Rightarrow> (nat \<Rightarrow> nat \<Rightarrow> nat \<Rightarrow> nat \<Rightarrow> real) \<Rightarrow>
   (nat \<Rightarrow> nat \<Rightarrow> nat \<Rightarrow> nat \<Rightarrow> real) \<Rightarrow> nat \<Rightarrow> nat \<Rightarrow> nat \<Rightarrow> real" where
  "attn_Z causal D qc kc nk Q K \<beta> b h i =
     (\<Sum>kt\<leftarrow>[0..<nk]. if attn_skip_block causal (i div qc) kt then 0
        else (\<Sum>l\<leftarrow>[0..<kc]. exp (tile_score D Q K \<beta> b h i (kt * kc + l))))"

definition attn_N ::
  "bool \<Rightarrow> nat \<Rightarrow> nat \<Rightarrow> nat \<Rightarrow> nat \<Rightarrow> (nat \<Rightarrow> nat \<Rightarrow> nat \<Rightarrow> nat \<Rightarrow> real) \<Rightarrow> (nat \<Rightarrow> nat \<Rightarrow> nat \<Rightarrow> nat \<Rightarrow> real) \<Rightarrow>
   (nat \<Rightarrow> nat \<Rightarrow> nat \<Rightarrow> nat \<Rightarrow> real) \<Rightarrow> (nat \<Rightarrow> nat \<Rightarrow> nat \<Rightarrow> nat \<Rightarrow> real) \<Rightarrow>
   nat \<Rightarrow> nat \<Rightarrow> nat \<Rightarrow> nat \<Rightarrow> real" where
  "attn_N causal D qc kc nk Q K V \<beta> b h i d =
     (\<Sum>kt\<leftarrow>[0..<nk]. if attn_skip_block causal (i div qc) kt then 0
        else (\<Sum>l\<leftarrow>[0..<kc]. exp (tile_score D Q K \<beta> b h i (kt * kc + l)) * V b (kt * kc + l) h d))"

section \<open>A source of randomness for examples\<close>

text \<open>
  \<open>unit_rng\<close> stands for \<^verbatim>\<open>jax.random\<close> in the examples: every key is the same and the
  Bernoulli mask drops nothing.
\<close>

definition unit_rng :: "unit rng_ops" where
  "unit_rng = \<lparr>rng_split = (\<lambda>key. (key, key)), rng_bernoulli = (\<lambda>key p s. tabulate s (\<lambda>idx. False))\<rparr>"

text \<open>
  \<open>normal_kw\<close> is a configuration for the examples: the contiguous causal layout with
  chunks of one position, without dropout.
\<close>

definition normal_kw :: "unit blockwise_kwargs" where
  "normal_kw = \<lparr>kw_causal_layout = Some ''normal'', kw_query_chunk_size = 1, kw_key_chunk_size = 1,
       kw_block_size = None, kw_deterministic = True, kw_dropout_rng = (), kw_attn_pdrop = 0,
       kw_dtype = Float32\<rparr>"

text \<open>
  \<open>nat_rng\<close> and \<open>nat_kw\<close> are a source of randomness whose keys are numbers, with a mask
  that depends on the key, and a configuration with a dropout rate of one half that is
  switched off by \<open>deterministic\<close>.
\<close>

definition nat_rng :: "nat rng_ops" where
  "nat_rng = \<lparr>rng_split = (\<lambda>key. (2 * key, 2 * key + 1)),
              rng_bernoulli = (\<lambda>key p s. tabulate s (\<lambda>idx. even (key + sum_list idx)))\<rparr>"

definition nat_kw :: "nat \<Rightarrow> nat blockwise_kwargs" where
  "nat_kw dropout_rng = \<lparr>kw_causal_layout = Some ''normal'', kw_query_chunk_size = 1,
       kw_key_chunk_size = 1, kw_block_size = None, kw_deterministic = True,
       kw_dropout_rng = dropout_rng, kw_attn_pdrop = 1 / 2, kw_dtype = Float32\<rparr>"

section \<open>Facts about the arithmetic\<close>

lemma fl_plus [simp]: "Fin a + Fin b = Fin (a + b)"
  by (simp add: plus_fl_def)

lemma fl_minus [simp]: "Fin a - Fin b = Fin (a - b)" "NInf - Fin b = NInf"
  by (simp_all add: minus_fl_def)

lemma fl_times [simp]: "Fin a * Fin b = Fin (a * b)"
  by (simp add: times_fl_def)

lemma fl_divide [simp]: "b \<noteq> 0 \<Longrightarrow> Fin a / Fin b = Fin (a / b)" "Fin 0 / Fin 0 = NaN"
  by (simp_all add: divide_fl_def)

lemma fl_zero [simp]: "(0::fl) = Fin 0"
  by (simp add: zero_fl_def)

lemma fl_sum_Fin: "fl_sum (map (\<lambda>x. Fin (f x)) xs) = Fin (sum_list (map f xs))"
  by (induction xs) (simp_all add: fl_sum_def)

lemma foldl_fl_max_Fin: "foldl fl_max (Fin a) (map (\<lambda>x. Fin (f x)) xs) = Fin (foldl max a (map f xs))"
  by (induction xs arbitrary: a) simp_all

lemma finfo_min_neg: "finfo_min dt < 0"
  by (cases dt) simp_all


section \<open>32-bit integers that do not wrap\<close>

lemma int32_id: "- (2 ^ 31) \<le> x \<Longrightarrow> x < 2 ^ 31 \<Longrightarrow> int32 x = x"
  by (simp add: int32_def)

lemma int32_nat: "n < 2 ^ 31 \<Longrightarrow> int32 (int n) = int n"
  by (rule int32_id) simp_all

lemma int32_range: "- (2 ^ 31) \<le> int32 x" "int32 x < 2 ^ 31"
  by (simp_all add: int32_def)

subsection \<open>Row-major indexing\<close>

lemma length_concat_map_upt:
  "(\<And>i. i < n \<Longrightarrow> length (g i) = m) \<Longrightarrow> length (concat (map g [0..<n])) = n * m"
  by (induction n) simp_all

lemma concat_map_nth:
  assumes "\<And>i. i < n \<Longrightarrow> length (g i) = m" and "i < n" and "j < m"
  shows "concat (map g [0..<n]) ! (i * m + j) = g i ! j"
  using assms
proof (induction n)
  case 0
  then show ?case by simp
next
  case (Suc n)
  have len: "length (concat (map g [0..<n])) = n * m"
    using Suc.prems(1) by (intro length_concat_map_upt) simp
  show ?case
  proof (cases "i < n")
    case True
    have "i * m + j < Suc i * m" using \<open>j < m\<close> by simp
    also have "\<dots> \<le> n * m" using True by (intro mult_le_mono1) simp
    finally have "i * m + j < n * m" .
    with True Suc.IH Suc.prems show ?thesis
      by (simp add: nth_append len)
  next
    case False
    with \<open>i < Suc n\<close> have "i = n" by simp
    then show ?thesis by (simp add: nth_append len)
  qed
qed

lemma distinct_concat_cons:
  "distinct xs \<Longrightarrow> distinct (concat (map (\<lambda>i. map ((#) i) xs) [0..<n]))"
proof (induction n)
  case 0
  then show ?case by simp
next
  case (Suc n)
  have "set (concat (map (\<lambda>i. map ((#) i) xs) [0..<n])) \<inter> set (map ((#) n) xs) = {}"
    by auto
  with Suc show ?case by (simp add: distinct_map)
qed

lemma distinct_indices: "distinct (indices s)"
  by (induction s) (simp_all add: distinct_concat_cons)

lemma length_indices [simp]: "length (indices s) = prod_list s"
  by (induction s) (simp_all add: length_concat_map_upt)

lemma ravel_less: "in_range s idx \<Longrightarrow> ravel s idx < prod_list s"
  unfolding in_range_def
proof (induction idx s rule: list_all2_induct)
  case Nil then show ?case by simp
next
  case (Cons i js n ns)
  have "i * prod_list ns + ravel ns js < Suc i * prod_list ns"
    using Cons.IH by simp
  also have "\<dots> \<le> n * prod_list ns"
    using Cons.hyps(1) by (intro mult_le_mono1) simp
  finally show ?case by simp
qed

lemma indices_ravel: "in_range s idx \<Longrightarrow> indices s ! ravel s idx = idx"
  unfolding in_range_def
proof (induction idx s rule: list_all2_induct)
  case Nil then show ?case by simp
next
  case (Cons i js n ns)
  have r: "ravel ns js < prod_list ns"
    using Cons.hyps(2) by (simp add: ravel_less in_range_def)
  have "concat (map (\<lambda>i. map ((#) i) (indices ns)) [0..<n]) ! (i * prod_list ns + ravel ns js)
          = map ((#) i) (indices ns) ! ravel ns js"
    by (rule concat_map_nth[OF _ Cons.hyps(1) r]) simp
  then show ?case using r Cons.IH by simp
qed

lemma set_indices: "set (indices s) = {idx. in_range s idx}"
  unfolding in_range_def
proof (induction s)
  case Nil then show ?case by auto
next
  case (Cons n ns)
  show ?case
  proof (intro set_eqI iffI)
    fix idx assume "idx \<in> set (indices (n # ns))"
    then show "idx \<in> {idx. list_all2 (<) idx (n # ns)}"
      using Cons.IH by auto
  next
    fix idx assume "idx \<in> {idx. list_all2 (<) idx (n # ns)}"
    then obtain i js where "idx = i # js" "i < n" "list_all2 (<) js ns"
      by (auto simp: list_all2_Cons2)
    then show "idx \<in> set (indices (n # ns))"
      using Cons.IH by auto
  qed
qed

lemma shape_tabulate [simp]: "shape (tabulate s f) = s"
  by (simp add: tabulate_def)

lemma well_shaped_tabulate [simp]: "well_shaped (tabulate s f)"
  by (simp add: tabulate_def well_shaped_def)

lemma elem_tabulate [simp]: "in_range s idx \<Longrightarrow> elem (tabulate s f) idx = f idx"
  by (simp add: elem_def tabulate_def ravel_less indices_ravel)

lemma tabulate_cong: "(\<And>idx. in_range s idx \<Longrightarrow> f idx = g idx) \<Longrightarrow> tabulate s f = tabulate s g"
  by (simp add: tabulate_def set_indices)

lemma tabulate_elem: "well_shaped t \<Longrightarrow> tabulate (shape t) (elem t) = t"
proof -
  assume w: "well_shaped t"
  have "map (elem t) (indices (shape t)) = data t"
  proof (rule nth_equalityI)
    show "length (map (elem t) (indices (shape t))) = length (data t)"
      using w by (simp add: well_shaped_def)
  next
    fix i assume "i < length (map (elem t) (indices (shape t)))"
    then have i: "i < length (indices (shape t))" by simp
    then have "indices (shape t) ! i \<in> set (indices (shape t))" by (rule nth_mem)
    then have r: "in_range (shape t) (indices (shape t) ! i)" by (simp add: set_indices)
    have "indices (shape t) ! ravel (shape t) (indices (shape t) ! i) = indices (shape t) ! i"
      by (rule indices_ravel[OF r])
    moreover note distinct_indices[of "shape t"]
    ultimately have "ravel (shape t) (indices (shape t) ! i) = i"
      using i ravel_less[OF r] by (simp add: nth_eq_iff_index_eq)
    then show "map (elem t) (indices (shape t)) ! i = data t ! i"
      using i by (simp add: elem_def)
  qed
  then show ?thesis by (simp add: tabulate_def)
qed

lemma tensor_eqI:
  assumes "well_shaped a" "well_shaped b" "shape a = shape b"
    and "\<And>idx. in_range (shape a) idx \<Longrightarrow> elem a idx = elem b idx"
  shows "a = b"
proof -
  have "tabulate (shape a) (elem a) = tabulate (shape a) (elem b)"
    by (rule tabulate_cong) (rule assms(4))
  then show ?thesis using assms(1-3) by (metis tabulate_elem)
qed

lemma elem_with_shape: "elem (with_shape t s) idx = data t ! ravel s idx"
  by (simp add: elem_def with_shape_def)

lemma shape_with_shape [simp]: "shape (with_shape t s) = s"
  by (simp add: with_shape_def)

lemma data_with_shape [simp]: "data (with_shape t s) = data t"
  by (simp add: with_shape_def)

lemma well_shaped_with_shape: "well_shaped t \<Longrightarrow> prod_list s = prod_list (shape t) \<Longrightarrow> well_shaped (with_shape t s)"
  by (simp add: well_shaped_def)

lemma elem_data: "data t ! ravel (shape t) idx = elem t idx"
  by (simp add: elem_def)

lemma divmod_split: "(0::nat) < n \<Longrightarrow> p < d * n \<Longrightarrow> p div n < d"
  by (simp add: less_mult_imp_div_less)

lemma permute_tokens_elem:
  assumes "shape tokens = [b, l]" "0 < d" "l mod d = 0" "i < b" "p < l"
  shows "\<exists>t'. permute_tokens ''striped'' tokens d = Inr t' \<and> shape t' = [b, l] \<and>
           elem t' [i, p] = elem tokens [i, (p mod (l div d)) * d + p div (l div d)]"
proof -
  define n where "n = l div d"
  have l: "l = n * d" using assms(3) div_mult_mod_eq[of l d] by (simp add: n_def)
  have npos: "0 < n" using \<open>p < l\<close> l by (cases n) auto
  have pd: "p div n < d" using \<open>p < l\<close> l npos by (simp add: less_mult_imp_div_less mult.commute)
  have pm: "p mod n < n" using npos by simp
  define R where "R = with_shape tokens [b, n, d]"
  define T where "T = transpose_axes [0, 2, 1] R"
  have "elem (with_shape T [b, l]) [i, p] = data T ! (i * l + p)"
    by (simp add: elem_with_shape)
  also have "i * l + p = ravel (shape T) [i, p div n, p mod n]"
    by (simp add: T_def transpose_axes_def R_def l algebra_simps)
  also have "data T ! \<dots> = elem T [i, p div n, p mod n]" by (simp add: elem_def)
  also have "\<dots> = elem R [i, p mod n, p div n]"
    using assms pd pm by (simp add: T_def transpose_axes_def in_range_def R_def)
  also have "\<dots> = data tokens ! (i * l + ((p mod n) * d + p div n))"
    by (simp add: R_def elem_with_shape l algebra_simps)
  also have "\<dots> = elem tokens [i, (p mod n) * d + p div n]"
    by (simp add: elem_def assms(1))
  finally show ?thesis
    using assms by (simp add: permute_tokens_def T_def R_def n_def)
qed

lemma unpermute_outputs_elem:
  assumes "shape outputs = [b, l, x]" "0 < d" "l mod d = 0" "i < b" "p < l" "k < x"
  shows "\<exists>y'. unpermute_outputs ''striped'' outputs d = Inr y' \<and> shape y' = [b, l, x] \<and>
           elem y' [i, p, k] = elem outputs [i, (p mod d) * (l div d) + p div d, k]"
proof -
  define n where "n = l div d"
  define q where "q = p div d"
  define r where "r = p mod d"
  have l: "l = n * d" using assms(3) div_mult_mod_eq[of l d] by (simp add: n_def)
  have p: "p = q * d + r" by (simp add: q_def r_def)
  have pd: "q < n" using \<open>p < l\<close> l \<open>0 < d\<close> by (simp add: less_mult_imp_div_less q_def)
  have pm: "r < d" using \<open>0 < d\<close> by (simp add: r_def)
  define R where "R = with_shape outputs [b, d, n, x]"
  define T where "T = transpose_axes [0, 2, 1, 3] R"
  have "elem (with_shape T [b, l, x]) [i, p, k] = data T ! ((i * l + p) * x + k)"
    by (simp add: elem_with_shape algebra_simps)
  also have "(i * l + p) * x + k = ravel (shape T) [i, q, r, k]"
    by (simp add: T_def transpose_axes_def R_def l p algebra_simps)
  also have "data T ! \<dots> = elem T [i, q, r, k]" by (simp add: elem_def)
  also have "\<dots> = elem R [i, r, q, k]"
    using assms pd pm by (simp add: T_def transpose_axes_def in_range_def R_def)
  also have "\<dots> = data outputs ! ((i * l + (r * n + q)) * x + k)"
    by (simp add: R_def elem_with_shape l algebra_simps)
  also have "\<dots> = elem outputs [i, r * n + q, k]"
    by (simp add: elem_def assms(1) algebra_simps)
  finally show ?thesis
    using assms by (simp add: unpermute_outputs_def T_def R_def n_def q_def r_def)
qed

lemma in_range_Nil [simp]: "in_range [] idx \<longleftrightarrow> idx = []"
  by (simp add: in_range_def)

lemma in_range_Cons: "in_range (n # ns) idx \<longleftrightarrow> (\<exists>i js. idx = i # js \<and> i < n \<and> in_range ns js)"
  by (auto simp: in_range_def list_all2_Cons2)

lemma in_range_Cons_Cons [simp]: "in_range (n # ns) (i # js) \<longleftrightarrow> i < n \<and> in_range ns js"
  by (simp add: in_range_def)

lemma slice_strided_chunk:
  assumes "shape inputs = [b, l, d]" "0 < c" "l mod c = 0" "t < l div c"
  shows "slice_axis 2 (with_shape inputs [b, c, l div c, d]) t = strided_chunk inputs c t"
proof -
  have l: "l = c * (l div c)" using assms(3) by (metis mult_div_mod_eq add.right_neutral)
  define n where "n = l div c"
  have ln: "l = c * n" using l by (simp add: n_def)
  have "slice_axis 2 (with_shape inputs [b, c, n, d]) t
      = tabulate [b, c, d] (\<lambda>idx. elem (with_shape inputs [b, c, n, d]) (take 2 idx @ t # drop 2 idx))"
    by (simp add: slice_axis_def)
  also have "\<dots> = tabulate [b, c, d] (\<lambda>idx. elem inputs [idx ! 0, idx ! 1 * n + t, idx ! 2])"
  proof (rule tabulate_cong)
    fix idx assume "in_range [b, c, d] idx"
    then obtain i j k where idx: "idx = [i, j, k]" by (auto simp: in_range_Cons)
    show "elem (with_shape inputs [b, c, n, d]) (take 2 idx @ t # drop 2 idx)
          = elem inputs [idx ! 0, idx ! 1 * n + t, idx ! 2]"
      by (simp add: idx elem_with_shape elem_def assms(1) ln algebra_simps)
  qed
  finally show ?thesis
    using assms(1) by (simp add: strided_chunk_def n_def)
qed

text \<open>
  Claim C9, as the code has it. \<^verbatim>\<open>rearrange(inputs, 'b (c n) d -> b c n d', c=chunk_size)\<close>
  makes \<open>chunk_size\<close> the outer factor of the length axis, and the scan runs over the
  inner axis \<open>n\<close>. So, for a sequence of length \<open>l\<close> and \<open>n = l div chunk_size\<close>, step \<open>t\<close>
  hands the function the \<open>chunk_size\<close> positions \<open>t, t + n, t + 2 * n, \<dots>\<close> (stride \<open>n\<close>,
  not consecutive positions), each chunk is transformed on its own, and every result
  goes back to the position its input came from.
\<close>

theorem blockwise_ffn_strided:
  assumes "shape inputs = [b, l, d]" and "0 < chunk_size" and "l mod chunk_size = 0" and "0 < l"
    and "\<forall>t < l div chunk_size.
           shape (remat_ffn t (strided_chunk inputs chunk_size t) deterministic) = [b', c', d']"
  shows "blockwise_ffn remat_ffn inputs chunk_size deterministic
           = Inr (ffn_strided_chunks remat_ffn inputs chunk_size deterministic [b', c', d'])"
proof -
  define n where "n = l div chunk_size"
  have ln: "l = chunk_size * n"
    using assms(3) by (metis mult_div_mod_eq add.right_neutral n_def)
  have npos: "0 < n" using \<open>0 < l\<close> ln by (cases n) auto
  define inputs' where "inputs' = with_shape inputs [b, chunk_size, n, d]"
  define g where "g = (\<lambda>t. remat_ffn t (strided_chunk inputs chunk_size t) deterministic)"
  define outputs where "outputs = map (\<lambda>t. remat_ffn t (slice_axis 2 inputs' t) deterministic) [0..<n]"
  have outs: "outputs = map g [0..<n]"
    unfolding outputs_def g_def inputs'_def n_def
    by (rule map_cong[OF refl]) (simp add: slice_strided_chunk[OF assms(1-3)])
  have g_shape: "shape (g t) = [b', c', d']" if "t < n" for t
    using assms(5) that by (simp add: g_def n_def)
  have all: "list_all (\<lambda>t. shape t = [b', c', d']) outputs"
    by (simp add: outs list_all_iff g_shape)
  obtain out rest where cons: "outputs = out # rest" and out: "out = g 0"
    using npos by (cases n) (auto simp: outs upt_rec)
  have first: "shape out = [b', c', d']" using out g_shape[OF npos] by simp
  let ?S = "stack_axis 2 [b', c', d'] outputs"
  have shapeS: "shape ?S = [b', c', n, d']" by (simp add: stack_axis_def outs)
  have eq: "with_shape ?S [b', c' * n, d'] = ffn_strided_chunks remat_ffn inputs chunk_size deterministic [b', c', d']"
  proof (rule tensor_eqI)
    show "well_shaped (with_shape ?S [b', c' * n, d'])"
      by (rule well_shaped_with_shape) (simp_all add: stack_axis_def outs)
    show "well_shaped (ffn_strided_chunks remat_ffn inputs chunk_size deterministic [b', c', d'])"
      by (simp add: ffn_strided_chunks_def)
    show "shape (with_shape ?S [b', c' * n, d'])
            = shape (ffn_strided_chunks remat_ffn inputs chunk_size deterministic [b', c', d'])"
      using assms(1) by (simp add: ffn_strided_chunks_def n_def)
  next
    fix idx assume "in_range (shape (with_shape ?S [b', c' * n, d'])) idx"
    then obtain i p k where idx: "idx = [i, p, k]" and i: "i < b'" and p: "p < c' * n" and k: "k < d'"
      by (auto simp: in_range_Cons)
    define q where "q = p div n"
    define r where "r = p mod n"
    have pq: "p = q * n + r" by (simp add: q_def r_def)
    have q: "q < c'" using p npos by (simp add: q_def less_mult_imp_div_less)
    have r: "r < n" using npos by (simp add: r_def)
    have "elem (with_shape ?S [b', c' * n, d']) idx = data ?S ! ((i * (c' * n) + p) * d' + k)"
      by (simp add: idx elem_with_shape algebra_simps)
    also have "(i * (c' * n) + p) * d' + k = ravel (shape ?S) [i, q, r, k]"
      by (simp add: shapeS pq algebra_simps)
    also have "data ?S ! \<dots> = elem ?S [i, q, r, k]" by (simp add: elem_def)
    also have "\<dots> = elem (g r) [i, q, k]"
      using i q r k by (simp add: stack_axis_def outs)
    finally show "elem (with_shape ?S [b', c' * n, d']) idx
            = elem (ffn_strided_chunks remat_ffn inputs chunk_size deterministic [b', c', d']) idx"
      using i p k assms(1) by (simp add: idx ffn_strided_chunks_def g_def q_def r_def n_def)
  qed
  have "blockwise_ffn remat_ffn inputs chunk_size deterministic
          = Inr (with_shape ?S [b', c' * n, d'])"
    using assms(1,2,3) cons first all
    by (simp add: blockwise_ffn_def Let_def n_def[symmetric] inputs'_def[symmetric] outputs_def[symmetric])
  then show ?thesis by (simp add: eq)
qed

theorem blockwise_ffn_strided_witness:
  "blockwise_ffn first_of_chunk \<lparr>shape = [1, 4, 1], data = [1, 2, 3, 4]\<rparr> 2 True
     = Inr (ffn_strided_chunks first_of_chunk \<lparr>shape = [1, 4, 1], data = [1, 2, 3, 4]\<rparr> 2 True [1, 2, 1])"
  using blockwise_ffn_strided[of "\<lparr>shape = [1, 4, 1], data = [1, 2, 3, 4]\<rparr>" 1 4 1 2 first_of_chunk True 1 2 1]
  by (simp add: first_of_chunk_def strided_chunk_def)

theorem blockwise_ffn_not_contiguous:
  "blockwise_ffn first_of_chunk \<lparr>shape = [1, 4, 1], data = [1, 2, 3, 4]\<rparr> 2 True
     \<noteq> Inr (ffn_contiguous_chunks first_of_chunk \<lparr>shape = [1, 4, 1], data = [1, 2, 3, 4]\<rparr> 2 True [1, 2, 1])"
  by code_simp

text \<open>
  Claim C6, as the code has it. \<open>permute_tokens\<close> takes a \<open>(batch, length)\<close> tensor and
  \<open>unpermute_outputs\<close> a \<open>(batch, length, x)\<close> tensor, so the second cannot be applied to
  the result of the first. For every attention type other than \<open>striped\<close> both functions
  return their argument unchanged, whatever its shape. For every \<open>P \<ge> 1\<close> that divides the
  length both functions succeed and keep the shape, and along the length axis the second
  rearrangement inverts the first: whenever position \<open>p\<close> of \<open>outputs\<close> holds what was
  computed from the permuted token at \<open>p\<close>, position \<open>p\<close> of the unpermuted outputs holds
  what was computed from the original token at \<open>p\<close>.
\<close>

theorem unpermute_inverts_permute:
  "(attention_type \<noteq> ''striped'' \<longrightarrow>
      permute_tokens attention_type tokens P = Inr tokens
      \<and> unpermute_outputs attention_type outputs P = Inr outputs)
   \<and> (shape tokens = [b, l] \<and> shape outputs = [b, l, x] \<and> 0 < P \<and> l mod P = 0 \<longrightarrow>
        (\<exists>tokens' y.
           permute_tokens attention_type tokens P = Inr tokens' \<and> shape tokens' = [b, l]
           \<and> unpermute_outputs attention_type outputs P = Inr y \<and> shape y = [b, l, x]
           \<and> ((\<forall>i<b. \<forall>p<l. \<forall>k<x. elem outputs [i, p, k] = f (elem tokens' [i, p]) k)
                \<longrightarrow> (\<forall>i<b. \<forall>p<l. \<forall>k<x. elem y [i, p, k] = f (elem tokens [i, p]) k))))"
proof (intro conjI impI)
  assume "attention_type \<noteq> ''striped''"
  then show "permute_tokens attention_type tokens P = Inr tokens"
    and "unpermute_outputs attention_type outputs P = Inr outputs"
    by (simp_all add: permute_tokens_def unpermute_outputs_def)
next
  assume h: "shape tokens = [b, l] \<and> shape outputs = [b, l, x] \<and> 0 < P \<and> l mod P = 0"
  then have st: "shape tokens = [b, l]" and so: "shape outputs = [b, l, x]" and P: "0 < P"
    and lP: "l mod P = 0"
    by simp_all
  show "\<exists>tokens' y.
           permute_tokens attention_type tokens P = Inr tokens' \<and> shape tokens' = [b, l]
           \<and> unpermute_outputs attention_type outputs P = Inr y \<and> shape y = [b, l, x]
           \<and> ((\<forall>i<b. \<forall>p<l. \<forall>k<x. elem outputs [i, p, k] = f (elem tokens' [i, p]) k)
                \<longrightarrow> (\<forall>i<b. \<forall>p<l. \<forall>k<x. elem y [i, p, k] = f (elem tokens [i, p]) k))"
  proof (cases "attention_type = ''striped''")
    case False
    then show ?thesis using st so by (simp add: permute_tokens_def unpermute_outputs_def)
  next
    case True
    define n where "n = l div P"
    have l: "l = n * P" using lP div_mult_mod_eq[of l P] by (simp add: n_def)
    obtain tokens' where t: "permute_tokens attention_type tokens P = Inr tokens'"
      and stt: "shape tokens' = [b, l]"
      using st P lP True by (simp add: permute_tokens_def)
    obtain y where y: "unpermute_outputs attention_type outputs P = Inr y" and sy: "shape y = [b, l, x]"
      using so P lP True by (simp add: unpermute_outputs_def)
    have "elem y [i, p, k] = f (elem tokens [i, p]) k"
      if a: "\<forall>i<b. \<forall>p<l. \<forall>k<x. elem outputs [i, p, k] = f (elem tokens' [i, p]) k"
        and r: "i < b" "p < l" "k < x" for i p k
    proof -
      define s where "s = (p mod P) * n + p div P"
      have pd: "p div P < n" using \<open>p < l\<close> l \<open>0 < P\<close> by (simp add: less_mult_imp_div_less)
      have "s < (p mod P) * n + n" using pd by (simp add: s_def)
      also have "\<dots> = Suc (p mod P) * n" by simp
      also have "\<dots> \<le> P * n" using \<open>0 < P\<close> by (intro mult_le_mono1) (simp add: Suc_le_eq)
      finally have sl: "s < l" using l by (simp add: mult.commute)
      have npos: "0 < n" using pd by simp
      have smod: "s mod n = p div P" using pd by (simp add: s_def)
      have sdiv: "s div n = p mod P" using pd npos by (simp add: s_def)
      from unpermute_outputs_elem[OF so P lP r]
      have "elem y [i, p, k] = elem outputs [i, s, k]"
        using y True by (auto simp: s_def n_def)
      also have "\<dots> = f (elem tokens' [i, s]) k"
        using a r(1,3) sl by simp
      also have "elem tokens' [i, s] = elem tokens [i, (s mod n) * P + s div n]"
        using permute_tokens_elem[OF st P lP r(1) sl] t True by (auto simp: n_def)
      also have "(s mod n) * P + s div n = p" by (simp add: smod sdiv)
      finally show ?thesis .
    qed
    then show ?thesis using t stt y sy by blast
  qed
qed

theorem unpermute_inverts_permute_witness:
  "(\<exists>y. unpermute_outputs ''striped'' \<lparr>shape = [1, 4, 1], data = [10, 30, 20, 40::nat]\<rparr> 2 = Inr y \<and>
       shape y = [1, 4, 1] \<and> elem y [0, 1, 0] = 20 \<and> elem y [0, 2, 0] = 30)
   \<and> permute_tokens ''contiguous'' \<lparr>shape = [1, 4], data = [1, 2, 3, 4::nat]\<rparr> 2
       = Inr \<lparr>shape = [1, 4], data = [1, 2, 3, 4::nat]\<rparr>
   \<and> unpermute_outputs ''contiguous'' \<lparr>shape = [1, 4, 1], data = [10, 30, 20, 40::nat]\<rparr> 2
       = Inr \<lparr>shape = [1, 4, 1], data = [10, 30, 20, 40::nat]\<rparr>"
proof -
  let ?tokens = "\<lparr>shape = [1, 4], data = [1, 2, 3, 4::nat]\<rparr>"
  let ?outputs = "\<lparr>shape = [1, 4, 1], data = [10, 30, 20, 40::nat]\<rparr>"
  have p: "permute_tokens ''striped'' ?tokens 2 = Inr \<lparr>shape = [1, 4], data = [1, 3, 2, 4::nat]\<rparr>"
    by code_simp
  have a: "\<forall>i<1. \<forall>p<4. \<forall>k<1. elem ?outputs [i, p, k]
        = (\<lambda>a k. 10 * a) (elem \<lparr>shape = [1, 4], data = [1, 3, 2, 4::nat]\<rparr> [i, p]) k"
    by (auto simp: elem_def less_Suc_eq numeral_nat)
  from unpermute_inverts_permute[where attention_type="''striped''" and tokens="?tokens"
      and outputs="?outputs" and P=2 and b=1 and l=4 and x=1 and f="\<lambda>a k. 10 * a"]
  obtain tokens' y where t: "permute_tokens ''striped'' ?tokens 2 = Inr tokens'"
    and y: "unpermute_outputs ''striped'' ?outputs 2 = Inr y" "shape y = [1, 4, 1]"
    and imp: "(\<forall>i<1. \<forall>p<4. \<forall>k<1. elem ?outputs [i, p, k] = (\<lambda>a k. 10 * a) (elem tokens' [i, p]) k)
                \<longrightarrow> (\<forall>i<1. \<forall>p<4. \<forall>k<1. elem y [i, p, k] = (\<lambda>a k. 10 * a) (elem ?tokens [i, p]) k)"
    by auto
  have "tokens' = \<lparr>shape = [1, 4], data = [1, 3, 2, 4::nat]\<rparr>" using t p by simp
  with a imp have e: "\<forall>i<1. \<forall>p<4. \<forall>k<1. elem y [i, p, k] = 10 * elem ?tokens [i, p]"
    by simp
  have "elem y [0, 1, 0] = 20" "elem y [0, 2, 0] = 30"
    using e by (simp_all add: elem_def)
  moreover have "permute_tokens ''contiguous'' ?tokens 2 = Inr ?tokens
      \<and> unpermute_outputs ''contiguous'' ?outputs 2 = Inr ?outputs"
    using unpermute_inverts_permute[where attention_type="''contiguous''" and tokens="?tokens"
        and outputs="?outputs" and P=2]
    by simp
  ultimately show ?thesis using y by blast
qed

theorem unpermute_after_permute_fails:
  "permute_tokens ''striped'' \<lparr>shape = [1, 4], data = [1, 2, 3, 4::nat]\<rparr> 2
      = Inr \<lparr>shape = [1, 4], data = [1, 3, 2, 4::nat]\<rparr>
   \<and> unpermute_outputs ''striped'' \<lparr>shape = [1, 4], data = [1, 3, 2, 4::nat]\<rparr> 2 = Inl EinopsError"
  by code_simp

section \<open>Facts about the array operations\<close>

lemma broadcast_index_Nil [simp]: "broadcast_index [] idx = []" "broadcast_index s [] = []"
  by (simp_all add: broadcast_index_def)

lemma broadcast_index_Cons [simp]:
  "broadcast_index (n # ns) (i # js) = (if n = 1 then 0 else i) # broadcast_index ns js"
  by (simp add: broadcast_index_def)

lemma broadcast_shapes_Nil [simp]: "broadcast_shapes [] t = []" "broadcast_shapes s [] = []"
  by (simp_all add: broadcast_shapes_def)

lemma broadcast_shapes_Cons [simp]:
  "broadcast_shapes (a # s) (b # t) = (if a = 1 then b else a) # broadcast_shapes s t"
  by (simp add: broadcast_shapes_def)

lemma broadcastable_Nil [simp]: "broadcastable [] []"
  by (simp add: broadcastable_def)

lemma broadcastable_Cons [simp]:
  "broadcastable (a # s) (b # t) \<longleftrightarrow> (a = b \<or> a = 1 \<or> b = 1) \<and> broadcastable s t"
  by (simp add: broadcastable_def)

lemma shape_zeros [simp]: "shape (zeros s) = s"
  by (simp add: zeros_def)

lemma elem_zeros [simp]: "in_range s idx \<Longrightarrow> elem (zeros s) idx = Fin 0"
  by (simp add: zeros_def)

section \<open>The bias tile: what is masked\<close>

lemma shape_causal_mask_value [simp]:
  "shape (causal_mask_value qc kc offset dt) = [1, 1, qc, kc]"
  by (simp add: causal_mask_value_def)

lemma bias_plain_mask:
  "broadcast2 (+) (zeros [1, 1, 1, 1]) (causal_mask_value qc kc offset dt) = causal_mask_value qc kc offset dt"
proof -
  have "broadcast2 (+) (zeros [1, 1, 1, 1]) (causal_mask_value qc kc offset dt)
        = tabulate [1, 1, qc, kc] (\<lambda>idx. elem (zeros [1, 1, 1, 1]) (broadcast_index [1, 1, 1, 1] idx)
             + elem (causal_mask_value qc kc offset dt) (broadcast_index [1, 1, qc, kc] idx))"
    by (simp add: broadcast2_def)
  also have "\<dots> = tabulate [1, 1, qc, kc]
       (\<lambda>idx. if int32 (int32 (int (idx ! 2)) + offset) < int32 (int (idx ! 3))
              then Fin (finfo_min dt) else Fin 0)"
  proof (rule tabulate_cong)
    fix idx assume "in_range [1, 1, qc, kc] idx"
    then obtain i j where idx: "idx = [0, 0, i, j]" and i: "i < qc" and j: "j < kc"
      by (auto simp: in_range_Cons)
    have bi: "broadcast_index [1, 1, qc, kc] idx = idx"
      using i j by (auto simp: idx)
    show "elem (zeros [1, 1, 1, 1]) (broadcast_index [1, 1, 1, 1] idx)
             + elem (causal_mask_value qc kc offset dt) (broadcast_index [1, 1, qc, kc] idx)
          = (if int32 (int32 (int (idx ! 2)) + offset) < int32 (int (idx ! 3))
             then Fin (finfo_min dt) else Fin 0)"
      unfolding bi using i j by (simp add: idx causal_mask_value_def)
  qed
  finally show ?thesis by (simp add: causal_mask_value_def)
qed

lemma chunk_attention_bias_normal:
  assumes "deterministic \<or> attn_pdrop \<le> 0"
  shows "chunk_attention_bias qc kc block_size None deterministic attn_dropout attn_pdrop
           (Some ''normal'') dt qi ki
         = Inr (causal_mask_value qc kc
                  (int32 (int32 (int qi * int qc) - int32 (int ki * int kc))) dt)"
  using assms
  by (auto simp: chunk_attention_bias_def Let_def broadcast_add_def bias_plain_mask simp del: One_nat_def)




lemma tile_in_block:
  fixes c bs i t :: nat
  assumes "0 < c" and "bs mod c = 0" and "i < c" and "0 < bs"
  shows "(t * c + i) div bs = (t * c) div bs" and "(t * c + i) mod bs = (t * c) mod bs + i"
proof -
  define m where "m = bs div c"
  have bs: "bs = m * c" using assms(2) div_mult_mod_eq[of bs c] by (simp add: m_def)
  have mpos: "0 < m" using assms(4) bs by (cases m) auto
  define a where "a = t div m"
  define r where "r = t mod m"
  have t: "t = a * m + r" by (simp add: a_def r_def)
  have r: "r < m" using mpos by (simp add: r_def)
  have "r * c + i < Suc r * c" using assms(3) by simp
  also have "\<dots> \<le> m * c" using r by (intro mult_le_mono1) simp
  finally have lt: "r * c + i < bs" by (simp add: bs)
  then have lt0: "r * c < bs" by simp
  have e1: "t * c + i = a * bs + (r * c + i)" by (simp add: t bs algebra_simps)
  have e0: "t * c = a * bs + r * c" by (simp add: t bs algebra_simps)
  have d1: "(a * bs + (r * c + i)) div bs = a" and m1: "(a * bs + (r * c + i)) mod bs = r * c + i"
    using lt by simp_all
  have d0: "(a * bs + r * c) div bs = a" and m0: "(a * bs + r * c) mod bs = r * c"
    using lt0 by simp_all
  have "(t * c + i) div bs = a" by (simp only: e1 d1)
  moreover have "(t * c) div bs = a" by (simp only: e0 d0)
  ultimately show "(t * c + i) div bs = (t * c) div bs" by simp
  have "(t * c + i) mod bs = r * c + i" by (simp only: e1 m1)
  moreover have "(t * c) mod bs = r * c" by (simp only: e0 m0)
  ultimately show "(t * c + i) mod bs = (t * c) mod bs + i" by simp
qed

lemma unpermuted_position_less:
  fixes a c P bs qp kp :: nat
  assumes "a < P" "c < P" "0 < bs"
  shows "(qp * P + a < kp * P + c) \<longleftrightarrow> (qp < kp \<or> (qp = kp \<and> a < c))"
proof (cases qp kp rule: linorder_cases)
  case less
  then have "Suc qp \<le> kp" by simp
  then have "Suc qp * P \<le> kp * P" by (rule mult_le_mono1)
  then show ?thesis using less assms(1) by simp
next
  case equal
  then show ?thesis by simp
next
  case greater
  then have "Suc kp \<le> qp" by simp
  then have "Suc kp * P \<le> qp * P" by (rule mult_le_mono1)
  then show ?thesis using greater assms(2) by simp
qed

theorem chunk_attention_bias_striped:
  assumes "deterministic \<or> attn_pdrop \<le> 0"
    and "0 < query_chunk_size" and "0 < key_chunk_size" and "0 < bs"
    and "bs mod query_chunk_size = 0" and "bs mod key_chunk_size = 0"
    and "i < query_chunk_size" and "j < key_chunk_size"
    and "q_tile_idx * query_chunk_size + i < P * bs" and "k_tile_idx * key_chunk_size + j < P * bs"
    and "P * bs \<le> 2 ^ 31"
  shows "\<exists>chunk_bias.
           chunk_attention_bias query_chunk_size key_chunk_size (Some bs) None deterministic
             attn_dropout attn_pdrop (Some ''striped'') dtype q_tile_idx k_tile_idx = Inr chunk_bias
           \<and> chunk_bias = causal_mask_value query_chunk_size key_chunk_size
               (int ((q_tile_idx * query_chunk_size) mod bs) - int ((k_tile_idx * key_chunk_size) mod bs)
                  - (if (q_tile_idx * query_chunk_size) div bs < (k_tile_idx * key_chunk_size) div bs
                     then 1 else 0)) dtype
           \<and> elem chunk_bias [0, 0, i, j] =
               (if unpermuted_position P bs (q_tile_idx * query_chunk_size + i)
                     < unpermuted_position P bs (k_tile_idx * key_chunk_size + j)
                then Fin (finfo_min dtype) else Fin 0)"
proof -
  define qo where "qo = q_tile_idx * query_chunk_size"
  define ko where "ko = k_tile_idx * key_chunk_size"
  define a where "a = qo div bs"
  define c where "c = ko div bs"
  define offset where "offset = int (qo mod bs) - int (ko mod bs) - (if a < c then 1 else 0)"
  have qd: "(qo + i) div bs = a" and qm: "(qo + i) mod bs = qo mod bs + i"
    using tile_in_block[OF assms(2,5,7,4), of q_tile_idx] by (simp_all add: qo_def a_def)
  have kd: "(ko + j) div bs = c" and km: "(ko + j) mod bs = ko mod bs + j"
    using tile_in_block[OF assms(3,6,8,4), of k_tile_idx] by (simp_all add: ko_def c_def)
  have aP: "a < P" using assms(9) assms(4) qd
    by (metis qo_def less_mult_imp_div_less)
  have cP: "c < P" using assms(10) assms(4) kd
    by (metis ko_def less_mult_imp_div_less)
  have "bs \<le> P * bs" using aP by (cases P) auto
  then have bsb: "bs \<le> 2 ^ 31" using assms(11) by (rule order_trans)
  have qb: "qo + i < 2 ^ 31" and kb: "ko + j < 2 ^ 31"
    using assms(9,10,11) by (simp_all add: qo_def ko_def)
  have qlt: "qo mod bs + i < bs" and klt: "ko mod bs + j < bs"
    using assms(4) qm[symmetric] km[symmetric] by simp_all
  have qo: "int32 (int q_tile_idx * int query_chunk_size) = int qo"
    using int32_nat[of qo] qb by (simp add: qo_def)
  have ko: "int32 (int k_tile_idx * int key_chunk_size) = int ko"
    using int32_nat[of ko] kb by (simp add: ko_def)
  have dm: "int qo div int bs = int a" "int ko div int bs = int c"
    "int qo mod int bs = int (qo mod bs)" "int ko mod int bs = int (ko mod bs)"
    by (simp_all add: a_def c_def zdiv_int zmod_int)
  have off: "int32 offset = offset"
    using qlt klt bsb by (intro int32_id) (simp_all add: offset_def)
  have val: "chunk_attention_bias query_chunk_size key_chunk_size (Some bs) None deterministic
               attn_dropout attn_pdrop (Some ''striped'') dtype q_tile_idx k_tile_idx
             = Inr (causal_mask_value query_chunk_size key_chunk_size offset dtype)"
  proof -
    have "int32 (int (qo mod bs) - int (ko mod bs) - (if int a < int c then 1 else 0)) = offset"
      using off by (simp add: offset_def)
    then show ?thesis
      using assms(1-6)
      by (auto simp: chunk_attention_bias_def Let_def broadcast_add_def bias_plain_mask qo ko dm
            simp del: One_nat_def of_nat_less_iff)
  qed
  have ii: "int32 (int i) = int i" and jj: "int32 (int j) = int j"
    using qb kb by (simp_all add: int32_nat)
  have row: "int32 (int i + offset) = int i + offset"
    using qlt klt bsb by (intro int32_id) (simp_all add: offset_def)
  have "(int i + offset < int j)
        \<longleftrightarrow> (qo mod bs + i < ko mod bs + j \<or> (qo mod bs + i = ko mod bs + j \<and> a < c))"
    by (auto simp: offset_def)
  also have "\<dots> \<longleftrightarrow> ((qo mod bs + i) * P + a < (ko mod bs + j) * P + c)"
    using unpermuted_position_less[OF aP cP assms(4)] by simp
  finally have mask: "(int i + offset < int j)
        \<longleftrightarrow> unpermuted_position P bs (qo + i) < unpermuted_position P bs (ko + j)"
    by (simp add: unpermuted_position_def qd qm kd km)
  have "elem (causal_mask_value query_chunk_size key_chunk_size offset dtype) [0, 0, i, j]
        = (if unpermuted_position P bs (qo + i) < unpermuted_position P bs (ko + j)
           then Fin (finfo_min dtype) else Fin 0)"
    using assms(7,8) mask by (simp add: causal_mask_value_def ii jj row)
  then show ?thesis
    using val by (simp add: offset_def qo_def ko_def a_def c_def)
qed

section \<open>Which pairs of tiles are skipped\<close>

lemma fwd_skip_block_none [simp]:
  "fwd_skip_block None qc kc bs qs ks qi ki = Inr False"
  by (simp add: fwd_skip_block_def)

lemma fwd_skip_block_normal:
  assumes "(qs + qi) * qc + qc < 2 ^ 31" and "(ks + ki) * kc < 2 ^ 31"
  shows "fwd_skip_block (Some ''normal'') qc kc bs qs ks qi ki
           = Inr ((qs + qi) * qc + qc \<le> (ks + ki) * kc)"
proof -
  have q: "int32 ((int qs + int qi) * int qc) = int ((qs + qi) * qc)"
    using int32_nat[of "(qs + qi) * qc"] assms(1) by simp
  have k: "int32 ((int ks + int ki) * int kc) = int ((ks + ki) * kc)"
    using int32_nat[of "(ks + ki) * kc"] assms(2) by simp
  have h: "int32 (int ((qs + qi) * qc) + int qc) = int ((qs + qi) * qc + qc)"
    using int32_nat[of "(qs + qi) * qc + qc"] assms(1) by simp
  show ?thesis
    unfolding fwd_skip_block_def Let_def q k h by (simp del: of_nat_mult of_nat_add)
qed

lemma fwd_skip_block_striped:
  assumes "0 < bs" and "bs + qc < 2 ^ 31"
    and "(qs + qi) * qc < 2 ^ 31" and "(ks + ki) * kc < 2 ^ 31"
  shows "fwd_skip_block (Some ''striped'') qc kc (Some bs) qs ks qi ki
           = Inr (((qs + qi) * qc) mod bs + qc \<le> ((ks + ki) * kc) mod bs)"
proof -
  have q: "int32 ((int qs + int qi) * int qc) = int ((qs + qi) * qc)"
    using int32_nat[of "(qs + qi) * qc"] assms(3) by simp
  have k: "int32 ((int ks + int ki) * int kc) = int ((ks + ki) * kc)"
    using int32_nat[of "(ks + ki) * kc"] assms(4) by simp
  have "((qs + qi) * qc) mod bs + qc < bs + qc" using assms(1) by simp
  then have lt: "((qs + qi) * qc) mod bs + qc < 2 ^ 31" using assms(2) by simp
  have e: "int ((qs + qi) * qc) mod int bs + int qc = int (((qs + qi) * qc) mod bs + qc)"
    by (simp only: zmod_int of_nat_add)
  have h: "int32 (int ((qs + qi) * qc) mod int bs + int qc) = int (((qs + qi) * qc) mod bs + qc)"
    by (simp only: e int32_nat[OF lt])
  have m: "int ((ks + ki) * kc) mod int bs = int (((ks + ki) * kc) mod bs)"
    by (simp add: zmod_int del: of_nat_mult of_nat_add)
  have "(int32 (int ((qs + qi) * qc) mod int bs + int qc) \<le> int ((ks + ki) * kc) mod int bs)
        \<longleftrightarrow> (((qs + qi) * qc) mod bs + qc \<le> ((ks + ki) * kc) mod bs)"
    by (simp only: h m of_nat_le_iff)
  then show ?thesis
    unfolding fwd_skip_block_def Let_def q k using assms(1)
    by (simp del: of_nat_mult of_nat_add)
qed

lemma bwd_skip_block_eq: "bwd_skip_block = fwd_skip_block"
  by (intro ext) (simp add: bwd_skip_block_def fwd_skip_block_def)

section \<open>The forward pass computes the sums of the exponentials\<close>

lemma fl_maximum_Fin:
  "xs \<noteq> [] \<Longrightarrow> \<exists>x. fl_maximum (map Fin xs) = Fin x"
proof (cases xs)
  case Nil
  assume "xs \<noteq> []"
  with Nil show ?thesis by simp
next
  case (Cons a as)
  have "foldl fl_max (Fin a) (map Fin as) = Fin (foldl max a as)"
    using foldl_fl_max_Fin[of a "\<lambda>x. x" as] by simp
  then show ?thesis using Cons by simp
qed

lemma fl_exp_NInf_minus [simp]: "fl_exp (NInf - Fin a) = Fin 0"
  by (simp add: minus_fl_def)

lemma sum_list_exp_pos:
  "xs \<noteq> [] \<Longrightarrow> 0 < (\<Sum>x\<leftarrow>xs. exp (f x :: real))"
proof (induction xs)
  case Nil then show ?case by simp
next
  case (Cons a xs)
  have "0 \<le> (\<Sum>x\<leftarrow>xs. exp (f x))" by (rule sum_list_nonneg) auto
  then show ?case by (simp add: add_pos_nonneg)
qed

lemma row_step:
  assumes ok: "row_ok Z N D m den num" and ne: "js \<noteq> []"
    and m': "m' = fl_max m (fl_maximum (map (\<lambda>j. Fin (s j)) js))"
  shows "row_ok (Z + (\<Sum>j\<leftarrow>js. exp (s j))) (\<lambda>d. N d + (\<Sum>j\<leftarrow>js. exp (s j) * V j d)) D m'
           (den * fl_exp (m - m') + fl_sum (map (\<lambda>j. fl_exp (Fin (s j) - m')) js))
           (\<lambda>d. num d * fl_exp (m - m') + fl_sum (map (\<lambda>j. fl_exp (Fin (s j) - m') * Fin (V j d)) js))"
proof -
  obtain Mx where Mx: "fl_maximum (map (\<lambda>j. Fin (s j)) js) = Fin Mx"
    using fl_maximum_Fin[of "map s js"] ne by (auto simp: comp_def)
  have pos: "0 < (\<Sum>j\<leftarrow>js. exp (s j))" using ne by (rule sum_list_exp_pos)
  have e1: "(\<Sum>j\<leftarrow>js. exp (s j - M')) = exp (- M') * (\<Sum>j\<leftarrow>js. exp (s j))" for M'
    by (simp add: sum_list_const_mult[symmetric] exp_diff exp_minus field_simps)
  have e2: "(\<Sum>j\<leftarrow>js. exp (s j - M') * V j d) = exp (- M') * (\<Sum>j\<leftarrow>js. exp (s j) * V j d)" for M' d
    by (simp add: sum_list_const_mult[symmetric] exp_diff exp_minus field_simps)
  from ok consider
    (empty) "m = NInf" "Z = 0" "den = Fin 0" "\<forall>d<D. N d = 0 \<and> num d = Fin 0"
    | (some) M where "m = Fin M" "0 < Z" "den = Fin (exp (- M) * Z)" "\<forall>d<D. num d = Fin (exp (- M) * N d)"
    unfolding row_ok_def by blast
  then show ?thesis
  proof cases
    case empty
    have mm: "m' = Fin Mx" using m' empty(1) Mx by simp
    have "\<exists>M. m' = Fin M \<and> 0 < Z + (\<Sum>j\<leftarrow>js. exp (s j)) \<and>
              den * fl_exp (m - m') + fl_sum (map (\<lambda>j. fl_exp (Fin (s j) - m')) js)
                = Fin (exp (- M) * (Z + (\<Sum>j\<leftarrow>js. exp (s j)))) \<and>
              (\<forall>d<D. num d * fl_exp (m - m') + fl_sum (map (\<lambda>j. fl_exp (Fin (s j) - m') * Fin (V j d)) js)
                 = Fin (exp (- M) * (N d + (\<Sum>j\<leftarrow>js. exp (s j) * V j d))))"
      apply (rule exI[of _ Mx])
      using empty pos by (simp add: mm fl_sum_Fin e1 e2)
    then show ?thesis unfolding row_ok_def by blast
  next
    case some
    have mm: "m' = Fin (max M Mx)" using m' some(1) Mx by simp
    have c: "exp (- M) * exp (M - max M Mx) = exp (- max M Mx)"
      by (simp add: exp_add[symmetric])
    have c': "exp (- M) * x * exp (M - max M Mx) = exp (- max M Mx) * x" for x
      using c by (simp add: mult.commute mult.left_commute)
    have "\<exists>M. m' = Fin M \<and> 0 < Z + (\<Sum>j\<leftarrow>js. exp (s j)) \<and>
              den * fl_exp (m - m') + fl_sum (map (\<lambda>j. fl_exp (Fin (s j) - m')) js)
                = Fin (exp (- M) * (Z + (\<Sum>j\<leftarrow>js. exp (s j)))) \<and>
              (\<forall>d<D. num d * fl_exp (m - m') + fl_sum (map (\<lambda>j. fl_exp (Fin (s j) - m') * Fin (V j d)) js)
                 = Fin (exp (- M) * (N d + (\<Sum>j\<leftarrow>js. exp (s j) * V j d))))"
      apply (rule exI[of _ "max M Mx"])
      using some pos by (simp add: mm fl_sum_Fin e1 e2 c' distrib_left add_pos_pos)
    then show ?thesis unfolding row_ok_def by blast
  qed
qed

lemma if_one_cancel [simp]: "(if k = Suc 0 then Suc 0 else k) = k"
  by simp

lemma bidx_lt [simp]: "i < n \<Longrightarrow> (if n = Suc 0 then 0 else i) = i"
  by auto

lemma shape_tmap [simp]: "shape (tmap f t) = shape t"
  by (simp add: tmap_def)

lemma elem_tmap [simp]: "in_range (shape t) idx \<Longrightarrow> elem (tmap f t) idx = f (elem t idx)"
  by (simp add: tmap_def)

lemma shape_broadcast2 [simp]: "shape (broadcast2 f a b) = broadcast_shapes (shape a) (shape b)"
  by (simp add: broadcast2_def)

lemma elem_broadcast2:
  "in_range (broadcast_shapes (shape a) (shape b)) idx \<Longrightarrow>
   elem (broadcast2 f a b) idx
     = f (elem a (broadcast_index (shape a) idx)) (elem b (broadcast_index (shape b) idx))"
  by (simp add: broadcast2_def)

lemma shape_reduce_last [simp]: "shape (reduce_last g t) = butlast (shape t)"
  by (simp add: reduce_last_def)

lemma elem_reduce_last:
  "in_range (butlast (shape t)) idx \<Longrightarrow>
   elem (reduce_last g t) idx = g (map (\<lambda>k. elem t (idx @ [k])) [0..<last (shape t)])"
  by (simp add: reduce_last_def)

lemma shape_expand_last [simp]: "shape (expand_last t) = shape t @ [1]"
  by (simp add: expand_last_def)

lemma ravel_snoc: "length idx = length s \<Longrightarrow> ravel (s @ [Suc 0]) (idx @ [0]) = ravel s idx"
  by (induction s idx rule: ravel.induct) simp_all

lemma elem_expand_last:
  "length idx = length (shape t) \<Longrightarrow> elem (expand_last t) (idx @ [0]) = elem t idx"
  by (simp add: expand_last_def elem_with_shape ravel_snoc elem_def)

lemma shape_transpose_axes [simp]: "shape (transpose_axes axes t) = map (\<lambda>a. shape t ! a) axes"
  by (simp add: transpose_axes_def)

lemma shape_slice_axis [simp]:
  "shape (slice_axis a t n) = take a (shape t) @ drop (Suc a) (shape t)"
  by (simp add: slice_axis_def)

lemma shape_stack_axis [simp]: "shape (stack_axis a s ts) = take a s @ length ts # drop a s"
  by (simp add: stack_axis_def)

lemma shape_einsum_bqhd_bkhd_bhqk [simp]:
  "shape (einsum_bqhd_bkhd_bhqk x y) = [shape x ! 0, shape x ! 2, shape x ! 1, shape y ! 1]"
  by (simp add: einsum_bqhd_bkhd_bhqk_def)

lemma shape_einsum_bhqk_bkhd_bqhd [simp]:
  "shape (einsum_bhqk_bkhd_bqhd w y) = [shape w ! 0, shape w ! 2, shape w ! 1, shape y ! 3]"
  by (simp add: einsum_bhqk_bkhd_bqhd_def)

lemma fwd_scan_kv_block_step:
  assumes ok: "tile_ok B H qc D Z N carry"
    and q: "fin4 q_chunk B qc H D Q" and k: "fin4 k_chunk B kc H D K" and v: "fin4 value_chunk B kc H D V"
    and bias: "chunk_bias_fn (qs + qi) (ks + ki) = Inr T" and T: "bias_tile_ok B H qc kc T \<beta>"
    and kc: "0 < kc" and D: "0 < D"
  shows "\<exists>carry'.
           fwd_scan_kv_block chunk_bias_fn (Fin (sqrt (real D))) qs ks q_chunk qi carry
             (k_chunk, value_chunk, ki) = Inr (carry', ())
           \<and> tile_ok B H qc D
               (\<lambda>b h i. Z b h i + (\<Sum>j\<leftarrow>[0..<kc]. exp (tile_score D Q K \<beta> b h i j)))
               (\<lambda>b h i d. N b h i d + (\<Sum>j\<leftarrow>[0..<kc]. exp (tile_score D Q K \<beta> b h i j) * V b j h d))
               carry'"
proof -
  obtain numc denc mxc where carry: "carry = (numc, denc, mxc)" by (cases carry) auto
  have sh: "shape numc = [B, qc, H, D]" "shape denc = [B, H, qc]" "shape mxc = [B, H, qc]"
    and rows: "\<And>b h i. b < B \<Longrightarrow> h < H \<Longrightarrow> i < qc \<Longrightarrow>
                 row_ok (Z b h i) (N b h i) D (elem mxc [b, h, i]) (elem denc [b, h, i])
                   (\<lambda>d. elem numc [b, i, h, d])"
    using ok by (auto simp: tile_ok_def carry)
  have qs: "shape q_chunk = [B, qc, H, D]" and ksh: "shape k_chunk = [B, kc, H, D]"
    and vs: "shape value_chunk = [B, kc, H, D]"
    using q k v by (auto simp: fin4_def)
  have qe: "\<And>b i h d. b < B \<Longrightarrow> i < qc \<Longrightarrow> h < H \<Longrightarrow> d < D \<Longrightarrow> elem q_chunk [b, i, h, d] = Fin (Q b i h d)"
    and ke: "\<And>b j h d. b < B \<Longrightarrow> j < kc \<Longrightarrow> h < H \<Longrightarrow> d < D \<Longrightarrow> elem k_chunk [b, j, h, d] = Fin (K b j h d)"
    and ve: "\<And>b j h d. b < B \<Longrightarrow> j < kc \<Longrightarrow> h < H \<Longrightarrow> d < D \<Longrightarrow> elem value_chunk [b, j, h, d] = Fin (V b j h d)"
    using q k v by (auto simp: fin4_def)
  have Tb: "broadcastable [B, H, qc, kc] (shape T)"
    and Ts: "broadcast_shapes [B, H, qc, kc] (shape T) = [B, H, qc, kc]"
    and Te: "\<And>b h i j. b < B \<Longrightarrow> h < H \<Longrightarrow> i < qc \<Longrightarrow> j < kc \<Longrightarrow>
               elem T (broadcast_index (shape T) [b, h, i, j]) = Fin (\<beta> b h i j)"
    using T by (auto simp: bias_tile_ok_def)
  let ?sc = "tile_score D Q K \<beta>"
  have sq: "sqrt (real D) \<noteq> 0" using D by simp
  define aw0 where "aw0 = tmap (\<lambda>x. x / Fin (sqrt (real D))) (einsum_bqhd_bkhd_bhqk q_chunk k_chunk)"
  define aw where "aw = broadcast2 (+) aw0 T"
  define mx' where "mx' = broadcast2 fl_max mxc (reduce_last fl_maximum aw)"
  define ew where "ew = tmap fl_exp (broadcast2 (-) aw (expand_last mx'))"
  define ev where "ev = einsum_bhqk_bkhd_bqhd ew value_chunk"
  define cr where "cr = tmap fl_exp (broadcast2 (-) mxc mx')"
  define corr where "corr = expand_last (transpose_axes [0, 2, 1] cr)"
  define num' where "num' = broadcast2 (+) (broadcast2 (\<lambda>x y. x * y) numc corr) ev"
  define den' where "den' = broadcast2 (+) (broadcast2 (\<lambda>x y. x * y) denc cr) (reduce_last fl_sum ew)"
  have aw0_sh: "shape aw0 = [B, H, qc, kc]" by (simp add: aw0_def qs ksh)
  have aw0_e: "elem aw0 [b, h, i, j] = Fin ((\<Sum>d\<leftarrow>[0..<D]. Q b i h d * K b j h d) / sqrt (real D))"
    if "b < B" "h < H" "i < qc" "j < kc" for b h i j
  proof -
    have eq: "map (\<lambda>d. elem q_chunk [b, i, h, d] * elem k_chunk [b, j, h, d]) [0..<D]
          = map (\<lambda>d. Fin (Q b i h d * K b j h d)) [0..<D]"
      using that by (intro map_cong[OF refl]) (simp add: qe ke)
    show ?thesis
      using that sq by (simp add: aw0_def einsum_bqhd_bkhd_bhqk_def qs ksh eq fl_sum_Fin)
  qed
  have aw_sh: "shape aw = [B, H, qc, kc]" by (simp add: aw_def aw0_sh Ts)
  have aw_e: "elem aw [b, h, i, j] = Fin (?sc b h i j)" if "b < B" "h < H" "i < qc" "j < kc" for b h i j
    using that by (simp add: aw_def elem_broadcast2 aw0_sh Ts aw0_e Te tile_score_def)
  have red_e: "elem (reduce_last fl_maximum aw) [b, h, i] = fl_maximum (map (\<lambda>j. Fin (?sc b h i j)) [0..<kc])"
    if "b < B" "h < H" "i < qc" for b h i
  proof -
    have eq: "map (\<lambda>j. elem aw [b, h, i, j]) [0..<kc] = map (\<lambda>j. Fin (?sc b h i j)) [0..<kc]"
      using that by (intro map_cong[OF refl]) (simp add: aw_e)
    show ?thesis using that by (simp add: elem_reduce_last aw_sh eq)
  qed
  have mx_sh: "shape mx' = [B, H, qc]" by (simp add: mx'_def sh aw_sh)
  have mx_e: "elem mx' [b, h, i] = fl_max (elem mxc [b, h, i]) (fl_maximum (map (\<lambda>j. Fin (?sc b h i j)) [0..<kc]))"
    if "b < B" "h < H" "i < qc" for b h i
    using that by (simp add: mx'_def elem_broadcast2 sh aw_sh red_e)
  have ew_sh: "shape ew = [B, H, qc, kc]" by (simp add: ew_def aw_sh mx_sh)
  have ew_e: "elem ew [b, h, i, j] = fl_exp (Fin (?sc b h i j) - elem mx' [b, h, i])"
    if "b < B" "h < H" "i < qc" "j < kc" for b h i j
  proof -
    have "elem (expand_last mx') ([b, h, i] @ [0]) = elem mx' [b, h, i]"
      by (rule elem_expand_last) (simp add: mx_sh)
    then show ?thesis
      using that by (simp add: ew_def elem_broadcast2 aw_sh mx_sh aw_e)
  qed
  have cr_sh: "shape cr = [B, H, qc]" by (simp add: cr_def sh mx_sh)
  have cr_e: "elem cr [b, h, i] = fl_exp (elem mxc [b, h, i] - elem mx' [b, h, i])"
    if "b < B" "h < H" "i < qc" for b h i
    using that by (simp add: cr_def elem_broadcast2 sh mx_sh)
  have corr_sh: "shape corr = [B, qc, H, 1]" by (simp add: corr_def cr_sh)
  have corr_e: "elem corr [b, i, h, 0] = fl_exp (elem mxc [b, h, i] - elem mx' [b, h, i])"
    if "b < B" "h < H" "i < qc" for b h i
  proof -
    have "elem corr ([b, i, h] @ [0]) = elem (transpose_axes [0, 2, 1] cr) [b, i, h]"
      unfolding corr_def by (rule elem_expand_last) (simp add: cr_sh)
    also have "\<dots> = elem cr [b, h, i]"
      using that by (simp add: transpose_axes_def cr_sh)
    finally show ?thesis using that by (simp add: cr_e)
  qed
  have ev_sh: "shape ev = [B, qc, H, D]" by (simp add: ev_def ew_sh vs)
  have ev_e: "elem ev [b, i, h, d]
        = fl_sum (map (\<lambda>j. fl_exp (Fin (?sc b h i j) - elem mx' [b, h, i]) * Fin (V b j h d)) [0..<kc])"
    if "b < B" "h < H" "i < qc" "d < D" for b h i d
  proof -
    have eq: "map (\<lambda>j. elem ew [b, h, i, j] * elem value_chunk [b, j, h, d]) [0..<kc]
          = map (\<lambda>j. fl_exp (Fin (?sc b h i j) - elem mx' [b, h, i]) * Fin (V b j h d)) [0..<kc]"
      using that by (intro map_cong[OF refl]) (simp add: ew_e ve)
    show ?thesis using that by (simp add: ev_def einsum_bhqk_bkhd_bqhd_def ew_sh vs eq)
  qed
  have num_sh: "shape num' = [B, qc, H, D]" by (simp add: num'_def sh corr_sh ev_sh)
  have num_e: "elem num' [b, i, h, d]
        = elem numc [b, i, h, d] * fl_exp (elem mxc [b, h, i] - elem mx' [b, h, i])
          + fl_sum (map (\<lambda>j. fl_exp (Fin (?sc b h i j) - elem mx' [b, h, i]) * Fin (V b j h d)) [0..<kc])"
    if "b < B" "h < H" "i < qc" "d < D" for b h i d
    using that by (simp add: num'_def elem_broadcast2 sh corr_sh ev_sh corr_e ev_e)
  have sum_e: "elem (reduce_last fl_sum ew) [b, h, i]
        = fl_sum (map (\<lambda>j. fl_exp (Fin (?sc b h i j) - elem mx' [b, h, i])) [0..<kc])"
    if "b < B" "h < H" "i < qc" for b h i
  proof -
    have eq: "map (\<lambda>j. elem ew [b, h, i, j]) [0..<kc]
          = map (\<lambda>j. fl_exp (Fin (?sc b h i j) - elem mx' [b, h, i])) [0..<kc]"
      using that by (intro map_cong[OF refl]) (simp add: ew_e)
    show ?thesis using that by (simp add: elem_reduce_last ew_sh eq)
  qed
  have den_sh: "shape den' = [B, H, qc]" by (simp add: den'_def sh cr_sh ew_sh)
  have den_e: "elem den' [b, h, i]
        = elem denc [b, h, i] * fl_exp (elem mxc [b, h, i] - elem mx' [b, h, i])
          + fl_sum (map (\<lambda>j. fl_exp (Fin (?sc b h i j) - elem mx' [b, h, i])) [0..<kc])"
    if "b < B" "h < H" "i < qc" for b h i
    using that by (simp add: den'_def elem_broadcast2 sh cr_sh ew_sh cr_e sum_e)
  have ne: "[0..<kc] \<noteq> []" using kc by simp
  have ok': "tile_ok B H qc D
               (\<lambda>b h i. Z b h i + (\<Sum>j\<leftarrow>[0..<kc]. exp (?sc b h i j)))
               (\<lambda>b h i d. N b h i d + (\<Sum>j\<leftarrow>[0..<kc]. exp (?sc b h i j) * V b j h d))
               (num', den', mx')"
    unfolding tile_ok_def
  proof (simp only: prod.case, intro conjI allI impI)
    fix b h i assume bhi: "b < B" "h < H" "i < qc"
    have "row_ok (Z b h i + (\<Sum>j\<leftarrow>[0..<kc]. exp (?sc b h i j)))
            (\<lambda>d. N b h i d + (\<Sum>j\<leftarrow>[0..<kc]. exp (?sc b h i j) * V b j h d)) D (elem mx' [b, h, i])
            (elem denc [b, h, i] * fl_exp (elem mxc [b, h, i] - elem mx' [b, h, i])
               + fl_sum (map (\<lambda>j. fl_exp (Fin (?sc b h i j) - elem mx' [b, h, i])) [0..<kc]))
            (\<lambda>d. elem numc [b, i, h, d] * fl_exp (elem mxc [b, h, i] - elem mx' [b, h, i])
               + fl_sum (map (\<lambda>j. fl_exp (Fin (?sc b h i j) - elem mx' [b, h, i]) * Fin (V b j h d)) [0..<kc]))"
      by (rule row_step[OF rows[OF bhi] ne mx_e[OF bhi]])
    then show "row_ok (Z b h i + (\<Sum>j\<leftarrow>[0..<kc]. exp (?sc b h i j)))
            (\<lambda>d. N b h i d + (\<Sum>j\<leftarrow>[0..<kc]. exp (?sc b h i j) * V b j h d)) D (elem mx' [b, h, i])
            (elem den' [b, h, i]) (\<lambda>d. elem num' [b, i, h, d])"
      unfolding row_ok_def using bhi by (simp add: den_e num_e)
  qed (simp_all add: num_sh den_sh mx_sh)
  have "fwd_scan_kv_block chunk_bias_fn (Fin (sqrt (real D))) qs ks q_chunk qi carry
          (k_chunk, value_chunk, ki) = Inr ((num', den', mx'), ())"
    using Tb Ts
    by (simp add: fwd_scan_kv_block_def carry bias Let_def aw0_def[symmetric] aw0_sh
        aw_def[symmetric] mx'_def[symmetric] ew_def[symmetric] ev_def[symmetric] cr_def[symmetric]
        corr_def[symmetric] num'_def[symmetric] den'_def[symmetric] del: One_nat_def)
  with ok' show ?thesis by blast
qed

lemma tile_ok_cong:
  assumes "tile_ok B H qc D Z N carry"
    and "\<And>b h i. b < B \<Longrightarrow> h < H \<Longrightarrow> i < qc \<Longrightarrow> Z b h i = Z' b h i"
    and "\<And>b h i d. b < B \<Longrightarrow> h < H \<Longrightarrow> i < qc \<Longrightarrow> d < D \<Longrightarrow> N b h i d = N' b h i d"
  shows "tile_ok B H qc D Z' N' carry"
proof -
  have "row_ok (Z' b h i) (N' b h i) D m den num"
    if "row_ok (Z b h i) (N b h i) D m den num" "b < B" "h < H" "i < qc" for b h i m den num
    using that assms(2)[OF that(2-4)] assms(3)[OF that(2-4)] unfolding row_ok_def by auto
  then show ?thesis using assms(1) unfolding tile_ok_def by (auto split: prod.splits)
qed

lemma fwd_inner_scan:
  assumes "tile_ok B H qc D Z N carry"
    and "fin4 q_chunk B qc H D Q"
    and "\<And>j. j \<in> set js \<Longrightarrow> fin4 (kt j) B kc H D (K j)"
    and "\<And>j. j \<in> set js \<Longrightarrow> fin4 (vt j) B kc H D (V j)"
    and "\<And>j. j \<in> set js \<Longrightarrow> \<exists>T. chunk_bias_fn (qs + qi) (ks + j) = Inr T \<and> bias_tile_ok B H qc kc T (\<beta> j)"
    and "\<And>j. j \<in> set js \<Longrightarrow>
           fwd_skip_block (kw_causal_layout kw) (kw_query_chunk_size kw) (kw_key_chunk_size kw)
             (kw_block_size kw) qs ks qi j = Inr (sk j)"
    and "0 < kc" and "0 < D"
  shows "\<exists>carry' us.
           scan (fwd_skip_upper_half kw chunk_bias_fn (Fin (sqrt (real D))) qs ks q_chunk qi) carry
             (map (\<lambda>j. (kt j, vt j, j)) js) = Inr (carry', us)
           \<and> tile_ok B H qc D
               (\<lambda>b h i. Z b h i
                  + (\<Sum>j\<leftarrow>js. if sk j then 0 else (\<Sum>l\<leftarrow>[0..<kc]. exp (tile_score D Q (K j) (\<beta> j) b h i l))))
               (\<lambda>b h i d. N b h i d
                  + (\<Sum>j\<leftarrow>js. if sk j then 0
                       else (\<Sum>l\<leftarrow>[0..<kc]. exp (tile_score D Q (K j) (\<beta> j) b h i l) * V j b l h d)))
               carry'"
  using assms
proof (induction js arbitrary: carry Z N)
  case Nil
  show ?case using Nil.prems(1) by simp
next
  case (Cons j js)
  let ?f = "fwd_skip_upper_half kw chunk_bias_fn (Fin (sqrt (real D))) qs ks q_chunk qi"
  let ?tz = "\<lambda>j b h i. (\<Sum>l\<leftarrow>[0..<kc]. exp (tile_score D Q (K j) (\<beta> j) b h i l))"
  let ?tn = "\<lambda>j b h i d. (\<Sum>l\<leftarrow>[0..<kc]. exp (tile_score D Q (K j) (\<beta> j) b h i l) * V j b l h d)"
  have jin: "j \<in> set (j # js)" by simp
  obtain T where T: "chunk_bias_fn (qs + qi) (ks + j) = Inr T" "bias_tile_ok B H qc kc T (\<beta> j)"
    using Cons.prems(5)[OF jin] by blast
  from fwd_scan_kv_block_step[where chunk_bias_fn=chunk_bias_fn and qs=qs and qi=qi and ks=ks and ki=j,
      OF Cons.prems(1,2) Cons.prems(3)[OF jin] Cons.prems(4)[OF jin] T Cons.prems(7,8)]
  obtain c1 where c1: "fwd_scan_kv_block chunk_bias_fn (Fin (sqrt (real D))) qs ks q_chunk qi carry
             (kt j, vt j, j) = Inr (c1, ())"
    and ok1: "tile_ok B H qc D (\<lambda>b h i. Z b h i + ?tz j b h i) (\<lambda>b h i d. N b h i d + ?tn j b h i d) c1"
    by blast
  define c2 where "c2 = (if sk j then carry else c1)"
  have step: "?f carry (kt j, vt j, j) = Inr (c2, ())"
    using Cons.prems(6)[OF jin] c1 by (simp add: fwd_skip_upper_half_def c2_def)
  have ok2: "tile_ok B H qc D (\<lambda>b h i. Z b h i + (if sk j then 0 else ?tz j b h i))
               (\<lambda>b h i d. N b h i d + (if sk j then 0 else ?tn j b h i d)) c2"
    using ok1 Cons.prems(1) by (simp add: c2_def)
  have "\<exists>carry' us.
           scan ?f c2 (map (\<lambda>j. (kt j, vt j, j)) js) = Inr (carry', us)
           \<and> tile_ok B H qc D
               (\<lambda>b h i. (Z b h i + (if sk j then 0 else ?tz j b h i))
                  + (\<Sum>j\<leftarrow>js. if sk j then 0 else ?tz j b h i))
               (\<lambda>b h i d. (N b h i d + (if sk j then 0 else ?tn j b h i d))
                  + (\<Sum>j\<leftarrow>js. if sk j then 0 else ?tn j b h i d))
               carry'"
    by (rule Cons.IH[OF ok2 Cons.prems(2)])
       (use Cons.prems in \<open>simp_all\<close>)
  then obtain carry' us where sc: "scan ?f c2 (map (\<lambda>j. (kt j, vt j, j)) js) = Inr (carry', us)"
    and ok3: "tile_ok B H qc D
               (\<lambda>b h i. (Z b h i + (if sk j then 0 else ?tz j b h i))
                  + (\<Sum>j\<leftarrow>js. if sk j then 0 else ?tz j b h i))
               (\<lambda>b h i d. (N b h i d + (if sk j then 0 else ?tn j b h i d))
                  + (\<Sum>j\<leftarrow>js. if sk j then 0 else ?tn j b h i d))
               carry'"
    by blast
  have "scan ?f carry (map (\<lambda>j. (kt j, vt j, j)) (j # js)) = Inr (carry', () # us)"
    using step sc by simp
  moreover have "tile_ok B H qc D
               (\<lambda>b h i. Z b h i + (\<Sum>j\<leftarrow>j # js. if sk j then 0 else ?tz j b h i))
               (\<lambda>b h i d. N b h i d + (\<Sum>j\<leftarrow>j # js. if sk j then 0 else ?tn j b h i d))
               carry'"
    by (rule tile_ok_cong[OF ok3]) (simp_all add: add.assoc)
  ultimately show ?case by blast
qed

lemma scan_unit:
  assumes "\<And>n. n \<in> set ns \<Longrightarrow> g () n = Inr ((), f n)"
  shows "scan g () ns = Inr ((), map f ns)"
  using assms by (induction ns) simp_all

lemma tile_position_less: "m < n \<Longrightarrow> i < c \<Longrightarrow> m * c + i < n * (c::nat)"
proof -
  assume "m < n" "i < c"
  have "m * c + i < Suc m * c" using \<open>i < c\<close> by simp
  also have "\<dots> \<le> n * c" using \<open>m < n\<close> by (intro mult_le_mono1) simp
  finally show ?thesis .
qed

lemma slice_tile4:
  assumes "shape t = [B, n * c, H, D]" and "m < n"
  shows "shape (slice_axis 0 (transpose_axes [1, 0, 2, 3, 4] (with_shape t [B, n, c, H, D])) m) = [B, c, H, D]"
    and "b < B \<Longrightarrow> i < c \<Longrightarrow> h < H \<Longrightarrow> d < D \<Longrightarrow>
         elem (slice_axis 0 (transpose_axes [1, 0, 2, 3, 4] (with_shape t [B, n, c, H, D])) m) [b, i, h, d]
           = elem t [b, m * c + i, h, d]"
proof -
  show "shape (slice_axis 0 (transpose_axes [1, 0, 2, 3, 4] (with_shape t [B, n, c, H, D])) m) = [B, c, H, D]"
    by simp
  assume a: "b < B" "i < c" "h < H" "d < D"
  have "elem (slice_axis 0 (transpose_axes [1, 0, 2, 3, 4] (with_shape t [B, n, c, H, D])) m) [b, i, h, d]
        = elem (with_shape t [B, n, c, H, D]) [b, m, i, h, d]"
    using a assms(2) by (simp add: slice_axis_def transpose_axes_def)
  also have "\<dots> = elem t [b, m * c + i, h, d]"
    by (simp add: elem_with_shape elem_def assms(1) algebra_simps)
  finally show "elem (slice_axis 0 (transpose_axes [1, 0, 2, 3, 4] (with_shape t [B, n, c, H, D])) m) [b, i, h, d]
           = elem t [b, m * c + i, h, d]" .
qed

lemma slice_tile3:
  assumes "shape t = [B, H, n * c]" and "m < n"
  shows "shape (slice_axis 0 (transpose_axes [2, 0, 1, 3] (with_shape t [B, H, n, c])) m) = [B, H, c]"
    and "b < B \<Longrightarrow> h < H \<Longrightarrow> i < c \<Longrightarrow>
         elem (slice_axis 0 (transpose_axes [2, 0, 1, 3] (with_shape t [B, H, n, c])) m) [b, h, i]
           = elem t [b, h, m * c + i]"
proof -
  show "shape (slice_axis 0 (transpose_axes [2, 0, 1, 3] (with_shape t [B, H, n, c])) m) = [B, H, c]"
    by simp
  assume a: "b < B" "h < H" "i < c"
  have "elem (slice_axis 0 (transpose_axes [2, 0, 1, 3] (with_shape t [B, H, n, c])) m) [b, h, i]
        = elem (with_shape t [B, H, n, c]) [b, h, m, i]"
    using a assms(2) by (simp add: slice_axis_def transpose_axes_def)
  also have "\<dots> = elem t [b, h, m * c + i]"
    by (simp add: elem_with_shape elem_def assms(1) algebra_simps)
  finally show "elem (slice_axis 0 (transpose_axes [2, 0, 1, 3] (with_shape t [B, H, n, c])) m) [b, h, i]
           = elem t [b, h, m * c + i]" .
qed

lemma merge_tile4:
  assumes "length ts = n" and "0 < c" and "b < B" and "i < n * c" and "h < H" and "d < D"
  shows "elem (with_shape (transpose_axes [1, 0, 2, 3, 4] (stack_axis 0 [B, c, H, D] ts)) [B, n * c, H, D])
           [b, i, h, d]
         = elem (ts ! (i div c)) [b, i mod c, h, d]"
proof -
  define m where "m = i div c"
  define r where "r = i mod c"
  have i: "i = m * c + r" by (simp add: m_def r_def)
  have m: "m < n" using assms(4,2) by (simp add: m_def less_mult_imp_div_less)
  have r: "r < c" using assms(2) by (simp add: r_def)
  let ?T = "transpose_axes [1, 0, 2, 3, 4] (stack_axis 0 [B, c, H, D] ts)"
  have sT: "shape ?T = [B, n, c, H, D]" by (simp add: assms(1))
  have "elem (with_shape ?T [B, n * c, H, D]) [b, i, h, d] = data ?T ! ravel [B, n * c, H, D] [b, i, h, d]"
    by (simp add: elem_with_shape)
  also have "ravel [B, n * c, H, D] [b, i, h, d] = ravel (shape ?T) [b, m, r, h, d]"
    unfolding sT by (simp add: i algebra_simps)
  also have "data ?T ! \<dots> = elem ?T [b, m, r, h, d]" by (simp add: elem_def)
  also have "\<dots> = elem (stack_axis 0 [B, c, H, D] ts) [m, b, r, h, d]"
    using assms(1,3,5,6) m r by (simp add: transpose_axes_def)
  also have "\<dots> = elem (ts ! m) [b, r, h, d]"
    using assms(1,3,5,6) m r by (simp add: stack_axis_def)
  finally show ?thesis by (simp add: m_def r_def)
qed

lemma merge_tile3:
  assumes "length ts = n" and "0 < c" and "b < B" and "h < H" and "i < n * c"
  shows "elem (with_shape (transpose_axes [1, 2, 0, 3] (stack_axis 0 [B, H, c] ts)) [B, H, n * c])
           [b, h, i]
         = elem (ts ! (i div c)) [b, h, i mod c]"
proof -
  define m where "m = i div c"
  define r where "r = i mod c"
  have i: "i = m * c + r" by (simp add: m_def r_def)
  have m: "m < n" using assms(5,2) by (simp add: m_def less_mult_imp_div_less)
  have r: "r < c" using assms(2) by (simp add: r_def)
  let ?T = "transpose_axes [1, 2, 0, 3] (stack_axis 0 [B, H, c] ts)"
  have sT: "shape ?T = [B, H, n, c]" by (simp add: assms(1))
  have "elem (with_shape ?T [B, H, n * c]) [b, h, i] = data ?T ! ravel [B, H, n * c] [b, h, i]"
    by (simp add: elem_with_shape)
  also have "ravel [B, H, n * c] [b, h, i] = ravel (shape ?T) [b, h, m, r]"
    unfolding sT by (simp add: i algebra_simps)
  also have "data ?T ! \<dots> = elem ?T [b, h, m, r]" by (simp add: elem_def)
  also have "\<dots> = elem (stack_axis 0 [B, H, c] ts) [m, b, h, r]"
    using assms(1,3,4) m r by (simp add: transpose_axes_def)
  also have "\<dots> = elem (ts ! m) [b, h, r]"
    using assms(1,3,4) m r by (simp add: stack_axis_def)
  finally show ?thesis by (simp add: m_def r_def)
qed

lemma blockwise_attention_fwd_ok:
  fixes kw :: "'key blockwise_kwargs"
  assumes ok: "tile_ok B H (nq * qc) D Z N carry"
    and q: "fin4 q B (nq * qc) H D Q" and k: "fin4 k B (nk * kc) H D K" and v: "fin4 v B (nk * kc) H D V"
    and qc: "kw_query_chunk_size kw = qc" "0 < qc" and kc: "kw_key_chunk_size kw = kc" "0 < kc"
    and D: "0 < D"
    and bb: "bias_broadcasts bias [B, H, nq * qc, nk * kc]"
    and bias: "\<And>qt kt. qt < nq \<Longrightarrow> kt < nk \<Longrightarrow>
        \<exists>T. chunk_attention_bias qc kc (kw_block_size kw) bias (kw_deterministic kw)
               (attn_dropout_mask rng kw [B, H, nq * qc, nk * kc]) (kw_attn_pdrop kw)
               (kw_causal_layout kw) (kw_dtype kw) (qs + qt) (ks + kt) = Inr T
             \<and> bias_tile_ok B H qc kc T (\<lambda>b h i l. \<beta> b h (qt * qc + i) (kt * kc + l))"
    and skip: "\<And>qt kt. qt < nq \<Longrightarrow> kt < nk \<Longrightarrow>
        fwd_skip_block (kw_causal_layout kw) qc kc (kw_block_size kw) qs ks qt kt = Inr (sk qt kt)"
  shows "\<exists>carry'.
           blockwise_attention_fwd rng q k v carry qs ks bias kw = Inr carry'
           \<and> tile_ok B H (nq * qc) D
               (\<lambda>b h i. Z b h i
                  + (\<Sum>kt\<leftarrow>[0..<nk]. if sk (i div qc) kt then 0
                       else (\<Sum>l\<leftarrow>[0..<kc]. exp (tile_score D Q K \<beta> b h i (kt * kc + l)))))
               (\<lambda>b h i d. N b h i d
                  + (\<Sum>kt\<leftarrow>[0..<nk]. if sk (i div qc) kt then 0
                       else (\<Sum>l\<leftarrow>[0..<kc]. exp (tile_score D Q K \<beta> b h i (kt * kc + l))
                                               * V b (kt * kc + l) h d)))
               carry'"
proof -
  obtain num den mx where carry: "carry = (num, den, mx)" by (cases carry) auto
  have sh: "shape num = [B, nq * qc, H, D]" "shape den = [B, H, nq * qc]" "shape mx = [B, H, nq * qc]"
    and rows: "\<And>b h i. b < B \<Longrightarrow> h < H \<Longrightarrow> i < nq * qc \<Longrightarrow>
                 row_ok (Z b h i) (N b h i) D (elem mx [b, h, i]) (elem den [b, h, i])
                   (\<lambda>d. elem num [b, i, h, d])"
    using ok by (auto simp: tile_ok_def carry)
  have qsh: "shape q = [B, nq * qc, H, D]" and ksh: "shape k = [B, nk * kc, H, D]"
    and vsh: "shape v = [B, nk * kc, H, D]"
    using q k v by (auto simp: fin4_def)
  have qe: "\<And>b i h d. b < B \<Longrightarrow> i < nq * qc \<Longrightarrow> h < H \<Longrightarrow> d < D \<Longrightarrow> elem q [b, i, h, d] = Fin (Q b i h d)"
    and ke: "\<And>b j h d. b < B \<Longrightarrow> j < nk * kc \<Longrightarrow> h < H \<Longrightarrow> d < D \<Longrightarrow> elem k [b, j, h, d] = Fin (K b j h d)"
    and ve: "\<And>b j h d. b < B \<Longrightarrow> j < nk * kc \<Longrightarrow> h < H \<Longrightarrow> d < D \<Longrightarrow> elem v [b, j, h, d] = Fin (V b j h d)"
    using q k v by (auto simp: fin4_def)
  define q' where "q' = transpose_axes [1, 0, 2, 3, 4] (with_shape q [B, nq, qc, H, D])"
  define k' where "k' = transpose_axes [1, 0, 2, 3, 4] (with_shape k [B, nk, kc, H, D])"
  define v' where "v' = transpose_axes [1, 0, 2, 3, 4] (with_shape v [B, nk, kc, H, D])"
  define num' where "num' = transpose_axes [1, 0, 2, 3, 4] (with_shape num [B, nq, qc, H, D])"
  define den' where "den' = transpose_axes [2, 0, 1, 3] (with_shape den [B, H, nq, qc])"
  define mx' where "mx' = transpose_axes [2, 0, 1, 3] (with_shape mx [B, H, nq, qc])"
  define cbf where "cbf = chunk_attention_bias qc kc (kw_block_size kw) bias (kw_deterministic kw)
               (attn_dropout_mask rng kw [B, H, nq * qc, nk * kc]) (kw_attn_pdrop kw)
               (kw_causal_layout kw) (kw_dtype kw)"
  define inner where "inner = (\<lambda>n.
     scan (fwd_skip_upper_half kw cbf (Fin (sqrt (real D))) qs ks (slice_axis 0 q' n) n)
       (slice_axis 0 num' n, slice_axis 0 den' n, slice_axis 0 mx' n)
       (map (\<lambda>j. (slice_axis 0 k' j, slice_axis 0 v' j, j)) [0..<nk]))"
  define g where "g = (\<lambda>u::unit. \<lambda>n. case inner n of
                          Inl e \<Rightarrow> Inl e
                        | Inr (chunks, nothing) \<Rightarrow> Inr ((), chunks))"
  let ?Z' = "\<lambda>b h i. Z b h i
                  + (\<Sum>kt\<leftarrow>[0..<nk]. if sk (i div qc) kt then 0
                       else (\<Sum>l\<leftarrow>[0..<kc]. exp (tile_score D Q K \<beta> b h i (kt * kc + l))))"
  let ?N' = "\<lambda>b h i d. N b h i d
                  + (\<Sum>kt\<leftarrow>[0..<nk]. if sk (i div qc) kt then 0
                       else (\<Sum>l\<leftarrow>[0..<kc]. exp (tile_score D Q K \<beta> b h i (kt * kc + l))
                                               * V b (kt * kc + l) h d))"
  have tile: "\<exists>c us. inner n = Inr (c, us)
                \<and> tile_ok B H qc D (\<lambda>b h i. ?Z' b h (n * qc + i)) (\<lambda>b h i d. ?N' b h (n * qc + i) d) c"
    if n: "n < nq" for n
  proof -
    have pos: "n * qc + i < nq * qc" if "i < qc" for i
      using n that by (rule tile_position_less)
    have c0: "tile_ok B H qc D (\<lambda>b h i. Z b h (n * qc + i)) (\<lambda>b h i d. N b h (n * qc + i) d)
                (slice_axis 0 num' n, slice_axis 0 den' n, slice_axis 0 mx' n)"
      unfolding tile_ok_def
    proof (simp only: prod.case, intro conjI allI impI)
      fix b h i assume bhi: "b < B" "h < H" "i < qc"
      show "row_ok (Z b h (n * qc + i)) (N b h (n * qc + i)) D (elem (slice_axis 0 mx' n) [b, h, i])
              (elem (slice_axis 0 den' n) [b, h, i]) (\<lambda>d. elem (slice_axis 0 num' n) [b, i, h, d])"
        using rows[OF bhi(1,2) pos[OF bhi(3)]] bhi
          slice_tile4(2)[OF sh(1) n] slice_tile3(2)[OF sh(2) n] slice_tile3(2)[OF sh(3) n]
        unfolding row_ok_def num'_def den'_def mx'_def by simp
    qed (simp_all add: num'_def den'_def mx'_def)
    have qf: "fin4 (slice_axis 0 q' n) B qc H D (\<lambda>b i h d. Q b (n * qc + i) h d)"
      unfolding fin4_def q'_def using slice_tile4[OF qsh n] qe pos by simp
    have kf: "fin4 (slice_axis 0 k' j) B kc H D (\<lambda>b l h d. K b (j * kc + l) h d)" if "j \<in> set [0..<nk]" for j
    proof -
      have j: "j < nk" using that by simp
      have "j * kc + l < nk * kc" if "l < kc" for l using j that by (rule tile_position_less)
      then show ?thesis unfolding fin4_def k'_def using slice_tile4[OF ksh j] ke by simp
    qed
    have vf: "fin4 (slice_axis 0 v' j) B kc H D (\<lambda>b l h d. V b (j * kc + l) h d)" if "j \<in> set [0..<nk]" for j
    proof -
      have j: "j < nk" using that by simp
      have "j * kc + l < nk * kc" if "l < kc" for l using j that by (rule tile_position_less)
      then show ?thesis unfolding fin4_def v'_def using slice_tile4[OF vsh j] ve by simp
    qed
    have bf: "\<exists>T. cbf (qs + n) (ks + j) = Inr T
                \<and> bias_tile_ok B H qc kc T (\<lambda>b h i l. \<beta> b h (n * qc + i) (j * kc + l))"
      if "j \<in> set [0..<nk]" for j
      using bias[OF n, of j] that by (simp add: cbf_def)
    have sf: "fwd_skip_block (kw_causal_layout kw) (kw_query_chunk_size kw) (kw_key_chunk_size kw)
             (kw_block_size kw) qs ks n j = Inr (sk n j)" if "j \<in> set [0..<nk]" for j
      using skip[OF n, of j] that by (simp add: qc kc)
    from fwd_inner_scan[where kw=kw and chunk_bias_fn=cbf and qs=qs and ks=ks and qi=n
        and kt="\<lambda>j. slice_axis 0 k' j" and vt="\<lambda>j. slice_axis 0 v' j"
        and K="\<lambda>j b l h d. K b (j * kc + l) h d" and V="\<lambda>j b l h d. V b (j * kc + l) h d"
        and \<beta>="\<lambda>j b h i l. \<beta> b h (n * qc + i) (j * kc + l)" and sk="sk n",
        OF c0 qf kf vf bf sf kc(2) D]
    obtain c us where run: "inner n = Inr (c, us)"
      and okc: "tile_ok B H qc D
               (\<lambda>b h i. Z b h (n * qc + i)
                  + (\<Sum>j\<leftarrow>[0..<nk]. if sk n j then 0
                       else (\<Sum>l\<leftarrow>[0..<kc]. exp (tile_score D (\<lambda>b i h d. Q b (n * qc + i) h d)
                               (\<lambda>b l h d. K b (j * kc + l) h d)
                               (\<lambda>b h i l. \<beta> b h (n * qc + i) (j * kc + l)) b h i l))))
               (\<lambda>b h i d. N b h (n * qc + i) d
                  + (\<Sum>j\<leftarrow>[0..<nk]. if sk n j then 0
                       else (\<Sum>l\<leftarrow>[0..<kc]. exp (tile_score D (\<lambda>b i h d. Q b (n * qc + i) h d)
                               (\<lambda>b l h d. K b (j * kc + l) h d)
                               (\<lambda>b h i l. \<beta> b h (n * qc + i) (j * kc + l)) b h i l)
                             * V b (j * kc + l) h d)))
               c"
      unfolding inner_def by blast
    have ts: "tile_score D (\<lambda>b i h d. Q b (n * qc + i) h d) (\<lambda>b l h d. K b (j * kc + l) h d)
                (\<lambda>b h i l. \<beta> b h (n * qc + i) (j * kc + l)) b h i l
              = tile_score D Q K \<beta> b h (n * qc + i) (j * kc + l)" for j b h i l
      by (simp add: tile_score_def)
    have dv: "(n * qc + i) div qc = n" if "i < qc" for i using that by simp
    have "tile_ok B H qc D (\<lambda>b h i. ?Z' b h (n * qc + i)) (\<lambda>b h i d. ?N' b h (n * qc + i) d) c"
      by (rule tile_ok_cong[OF okc]) (simp_all add: tile_score_def dv cong: if_cong)
    with run show ?thesis by blast
  qed
  have "\<forall>n. \<exists>c. n < nq \<longrightarrow> (\<exists>us. inner n = Inr (c, us))
           \<and> tile_ok B H qc D (\<lambda>b h i. ?Z' b h (n * qc + i)) (\<lambda>b h i d. ?N' b h (n * qc + i) d) c"
    using tile by blast
  from choice[OF this] obtain f where
    f_run: "\<And>n. n < nq \<Longrightarrow> \<exists>us. inner n = Inr (f n, us)"
    and f_ok: "\<And>n. n < nq \<Longrightarrow>
                 tile_ok B H qc D (\<lambda>b h i. ?Z' b h (n * qc + i)) (\<lambda>b h i d. ?N' b h (n * qc + i) d) (f n)"
    by blast
  have g_run: "g () n = Inr ((), f n)" if "n \<in> set [0..<nq]" for n
  proof -
    from that have "n < nq" by simp
    from f_run[OF this] obtain us where "inner n = Inr (f n, us)" by blast
    then show ?thesis by (simp add: g_def)
  qed
  have outer: "scan g () [0..<nq] = Inr ((), map f [0..<nq])"
    by (rule scan_unit) (rule g_run)
  define chunks where "chunks = map f [0..<nq]"
  define r_num where "r_num = with_shape
       (transpose_axes [1, 0, 2, 3, 4] (stack_axis 0 [B, qc, H, D] (map fst chunks))) [B, nq * qc, H, D]"
  define r_den where "r_den = with_shape
       (transpose_axes [1, 2, 0, 3] (stack_axis 0 [B, H, qc] (map (\<lambda>c. fst (snd c)) chunks))) [B, H, nq * qc]"
  define r_mx where "r_mx = with_shape
       (transpose_axes [1, 2, 0, 3] (stack_axis 0 [B, H, qc] (map (\<lambda>c. snd (snd c)) chunks))) [B, H, nq * qc]"
  have len: "length chunks = nq" by (simp add: chunks_def)
  have okr: "tile_ok B H (nq * qc) D ?Z' ?N' (r_num, r_den, r_mx)"
    unfolding tile_ok_def
  proof (simp only: prod.case, intro conjI allI impI)
    fix b h i assume bhi: "b < B" "h < H" "i < nq * qc"
    define n where "n = i div qc"
    define r where "r = i mod qc"
    have i: "n * qc + r = i" by (simp add: n_def r_def)
    have n: "n < nq" using bhi(3) qc(2) by (simp add: n_def less_mult_imp_div_less)
    have r: "r < qc" using qc(2) by (simp add: r_def)
    obtain cn cd cm where fn: "f n = (cn, cd, cm)" by (cases "f n") auto
    have ch: "chunks ! n = (cn, cd, cm)" using n fn by (simp add: chunks_def)
    have rk: "row_ok (?Z' b h (n * qc + r)) (?N' b h (n * qc + r)) D (elem cm [b, h, r]) (elem cd [b, h, r])
            (\<lambda>d. elem cn [b, r, h, d])"
      using f_ok[OF n] bhi(1,2) r unfolding tile_ok_def fn by simp
    have e1: "elem r_mx [b, h, i] = elem cm [b, h, r]"
      unfolding r_mx_def using merge_tile3[of "map (\<lambda>c. snd (snd c)) chunks" nq qc b B h H i] len qc(2) bhi n ch
      by (simp add: n_def[symmetric] r_def[symmetric])
    have e2: "elem r_den [b, h, i] = elem cd [b, h, r]"
      unfolding r_den_def using merge_tile3[of "map (\<lambda>c. fst (snd c)) chunks" nq qc b B h H i] len qc(2) bhi n ch
      by (simp add: n_def[symmetric] r_def[symmetric])
    have e3: "elem r_num [b, i, h, d] = elem cn [b, r, h, d]" if "d < D" for d
      unfolding r_num_def using merge_tile4[of "map fst chunks" nq qc b B i h H d D] len qc(2) bhi n ch that
      by (simp add: n_def[symmetric] r_def[symmetric])
    show "row_ok (?Z' b h i) (?N' b h i) D (elem r_mx [b, h, i]) (elem r_den [b, h, i])
            (\<lambda>d. elem r_num [b, i, h, d])"
      using rk unfolding row_ok_def i by (simp add: e1 e2 e3)
  qed (simp_all add: r_num_def r_den_def r_mx_def)
  have sizes: "prod_list [B, nq * qc, H, D] = prod_list [B, nq, qc, H, D]"
    "prod_list [B, nk * kc, H, D] = prod_list [B, nk, kc, H, D]"
    "prod_list [B, H, nq * qc] = prod_list [B, H, nq, qc]"
    by (simp_all add: algebra_simps)
  have dq: "nq * qc div qc = nq" and dk: "nk * kc div kc = nk" using qc(2) kc(2) by simp_all
  have "blockwise_attention_fwd rng q k v carry qs ks bias kw = Inr (r_num, r_den, r_mx)"
    unfolding blockwise_attention_fwd_def qsh ksh vsh carry
    using qc kc bb
    apply (simp only: prod.case list.case Let_def qc(1) kc(1) dq dk sh sizes)
    apply (simp only: q'_def[symmetric] k'_def[symmetric] v'_def[symmetric] num'_def[symmetric]
        den'_def[symmetric] mx'_def[symmetric] cbf_def[symmetric])
    apply (simp add: outer[unfolded g_def inner_def] chunks_def[symmetric] r_num_def r_den_def r_mx_def
        del: One_nat_def)
    done
  with okr show ?thesis by blast
qed

section \<open>The single-device pass keeps the accumulator's meaning\<close>

lemma shape_einsum_bqhd_bkhd_bqhk [simp]:
  "shape (einsum_bqhd_bkhd_bqhk x y) = [shape x ! 0, shape x ! 1, shape x ! 2, shape y ! 1]"
  by (simp add: einsum_bqhd_bkhd_bqhk_def)

lemma shape_einsum_bqhv_bvhd_bqhd [simp]:
  "shape (einsum_bqhv_bvhd_bqhd w y) = [shape w ! 0, shape w ! 1, shape w ! 2, shape y ! 3]"
  by (simp add: einsum_bqhv_bvhd_bqhd_def)

lemma shape_reduce_last_keepdims [simp]:
  "shape (reduce_last_keepdims g t) = butlast (shape t) @ [1]"
  by (simp add: reduce_last_keepdims_def)

lemma elem_reduce_last_keepdims:
  "in_range (butlast (shape t)) idx \<Longrightarrow>
   elem (reduce_last_keepdims g t) (idx @ [0]) = g (map (\<lambda>k. elem t (idx @ [k])) [0..<last (shape t)])"
proof -
  assume a: "in_range (butlast (shape t)) idx"
  then have "length idx = length (shape (reduce_last g t))"
    by (simp add: in_range_def list_all2_lengthD)
  then show ?thesis
    unfolding reduce_last_keepdims_def by (simp add: elem_expand_last elem_reduce_last a)
qed

lemma attn_scan_kv_block_step:
  assumes ok: "attn_tile_ok B H qc D Z N carry"
    and q: "fin4 query_chunk B qc H D Q" and k: "fin4 key_chunk B kc H D K" and v: "fin4 value_chunk B kc H D V"
    and bias: "chunk_bias_fn qi ki = Inr T" and T: "attn_bias_tile_ok B H qc kc T \<beta>"
    and kc: "0 < kc"
  shows "\<exists>carry'.
           attn_scan_kv_block chunk_bias_fn query_chunk qi carry (key_chunk, value_chunk, ki)
             = Inr (carry', ())
           \<and> attn_tile_ok B H qc D
               (\<lambda>b h i. Z b h i + (\<Sum>j\<leftarrow>[0..<kc]. exp (attn_score D Q K \<beta> b h i j)))
               (\<lambda>b h i d. N b h i d + (\<Sum>j\<leftarrow>[0..<kc]. exp (attn_score D Q K \<beta> b h i j) * V b j h d))
               carry'"
proof -
  obtain numc denc mxc where carry: "carry = (numc, denc, mxc)" by (cases carry) auto
  have sh: "shape numc = [B, qc, H, D]" "shape denc = [B, qc, H, D]" "shape mxc = [B, qc, H, 1]"
    and rows: "\<And>b i h d. b < B \<Longrightarrow> i < qc \<Longrightarrow> h < H \<Longrightarrow> d < D \<Longrightarrow>
                 row_ok (Z b h i) (N b h i) D (elem mxc [b, i, h, 0]) (elem denc [b, i, h, d])
                   (\<lambda>d'. elem numc [b, i, h, d'])"
    using ok by (auto simp: attn_tile_ok_def carry)
  have qs: "shape query_chunk = [B, qc, H, D]" and ksh: "shape key_chunk = [B, kc, H, D]"
    and vs: "shape value_chunk = [B, kc, H, D]"
    using q k v by (auto simp: fin4_def)
  have qe: "\<And>b i h d. b < B \<Longrightarrow> i < qc \<Longrightarrow> h < H \<Longrightarrow> d < D \<Longrightarrow> elem query_chunk [b, i, h, d] = Fin (Q b i h d)"
    and ke: "\<And>b j h d. b < B \<Longrightarrow> j < kc \<Longrightarrow> h < H \<Longrightarrow> d < D \<Longrightarrow> elem key_chunk [b, j, h, d] = Fin (K b j h d)"
    and ve: "\<And>b j h d. b < B \<Longrightarrow> j < kc \<Longrightarrow> h < H \<Longrightarrow> d < D \<Longrightarrow> elem value_chunk [b, j, h, d] = Fin (V b j h d)"
    using q k v by (auto simp: fin4_def)
  define T' where "T' = transpose_axes [0, 2, 1, 3] T"
  have Tl: "length (shape T) = 4"
    and Tb: "broadcastable [B, qc, H, kc] (shape T')"
    and Ts: "broadcast_shapes [B, qc, H, kc] (shape T') = [B, qc, H, kc]"
    and Te: "\<And>b i h j. b < B \<Longrightarrow> i < qc \<Longrightarrow> h < H \<Longrightarrow> j < kc \<Longrightarrow>
               elem T' (broadcast_index (shape T') [b, i, h, j]) = Fin (\<beta> b h i j)"
    using T by (auto simp: attn_bias_tile_ok_def T'_def)
  let ?sc = "attn_score D Q K \<beta>"
  define aw0 where "aw0 = einsum_bqhd_bkhd_bqhk query_chunk key_chunk"
  define aw where "aw = broadcast2 (+) aw0 T'"
  define mx' where "mx' = broadcast2 fl_max mxc (reduce_last_keepdims fl_maximum aw)"
  define ew where "ew = tmap fl_exp (broadcast2 (-) aw mx')"
  define ev where "ev = einsum_bqhv_bvhd_bqhd ew value_chunk"
  define corr where "corr = tmap fl_exp (broadcast2 (-) mxc mx')"
  define num' where "num' = broadcast2 (+) (broadcast2 (\<lambda>x y. x * y) numc corr) ev"
  define den' where "den' = broadcast2 (+) (broadcast2 (\<lambda>x y. x * y) denc corr) (reduce_last_keepdims fl_sum ew)"
  have aw0_sh: "shape aw0 = [B, qc, H, kc]" by (simp add: aw0_def qs ksh)
  have aw0_e: "elem aw0 [b, i, h, j] = Fin (\<Sum>d\<leftarrow>[0..<D]. Q b i h d * K b j h d)"
    if "b < B" "i < qc" "h < H" "j < kc" for b i h j
  proof -
    have eq: "map (\<lambda>d. elem query_chunk [b, i, h, d] * elem key_chunk [b, j, h, d]) [0..<D]
          = map (\<lambda>d. Fin (Q b i h d * K b j h d)) [0..<D]"
      using that by (intro map_cong[OF refl]) (simp add: qe ke)
    show ?thesis
      using that by (simp add: aw0_def einsum_bqhd_bkhd_bqhk_def qs ksh eq fl_sum_Fin)
  qed
  have aw_sh: "shape aw = [B, qc, H, kc]" by (simp add: aw_def aw0_sh Ts)
  have aw_e: "elem aw [b, i, h, j] = Fin (?sc b h i j)" if "b < B" "i < qc" "h < H" "j < kc" for b i h j
    using that by (simp add: aw_def elem_broadcast2 aw0_sh Ts aw0_e Te attn_score_def)
  have red_e: "elem (reduce_last_keepdims fl_maximum aw) [b, i, h, 0]
                 = fl_maximum (map (\<lambda>j. Fin (?sc b h i j)) [0..<kc])"
    if "b < B" "i < qc" "h < H" for b i h
  proof -
    have eq: "map (\<lambda>j. elem aw [b, i, h, j]) [0..<kc] = map (\<lambda>j. Fin (?sc b h i j)) [0..<kc]"
      using that by (intro map_cong[OF refl]) (simp add: aw_e)
    have "elem (reduce_last_keepdims fl_maximum aw) ([b, i, h] @ [0])
            = fl_maximum (map (\<lambda>j. elem aw ([b, i, h] @ [j])) [0..<last (shape aw)])"
      by (rule elem_reduce_last_keepdims) (use that in \<open>simp add: aw_sh\<close>)
    then show ?thesis by (simp add: aw_sh eq)
  qed
  have mx_sh: "shape mx' = [B, qc, H, 1]" by (simp add: mx'_def sh aw_sh)
  have mx_e: "elem mx' [b, i, h, 0] = fl_max (elem mxc [b, i, h, 0]) (fl_maximum (map (\<lambda>j. Fin (?sc b h i j)) [0..<kc]))"
    if "b < B" "i < qc" "h < H" for b i h
    using that by (simp add: mx'_def elem_broadcast2 sh aw_sh red_e)
  have ew_sh: "shape ew = [B, qc, H, kc]" by (simp add: ew_def aw_sh mx_sh)
  have ew_e: "elem ew [b, i, h, j] = fl_exp (Fin (?sc b h i j) - elem mx' [b, i, h, 0])"
    if "b < B" "i < qc" "h < H" "j < kc" for b i h j
    using that by (simp add: ew_def elem_broadcast2 aw_sh mx_sh aw_e)
  have corr_sh: "shape corr = [B, qc, H, 1]" by (simp add: corr_def sh mx_sh)
  have corr_e: "elem corr [b, i, h, 0] = fl_exp (elem mxc [b, i, h, 0] - elem mx' [b, i, h, 0])"
    if "b < B" "i < qc" "h < H" for b i h
    using that by (simp add: corr_def elem_broadcast2 sh mx_sh)
  have ev_sh: "shape ev = [B, qc, H, D]" by (simp add: ev_def ew_sh vs)
  have ev_e: "elem ev [b, i, h, d]
        = fl_sum (map (\<lambda>j. fl_exp (Fin (?sc b h i j) - elem mx' [b, i, h, 0]) * Fin (V b j h d)) [0..<kc])"
    if "b < B" "i < qc" "h < H" "d < D" for b i h d
  proof -
    have eq: "map (\<lambda>j. elem ew [b, i, h, j] * elem value_chunk [b, j, h, d]) [0..<kc]
          = map (\<lambda>j. fl_exp (Fin (?sc b h i j) - elem mx' [b, i, h, 0]) * Fin (V b j h d)) [0..<kc]"
      using that by (intro map_cong[OF refl]) (simp add: ew_e ve)
    show ?thesis using that by (simp add: ev_def einsum_bqhv_bvhd_bqhd_def ew_sh vs eq)
  qed
  have num_sh: "shape num' = [B, qc, H, D]" by (simp add: num'_def sh corr_sh ev_sh)
  have num_e: "elem num' [b, i, h, d]
        = elem numc [b, i, h, d] * fl_exp (elem mxc [b, i, h, 0] - elem mx' [b, i, h, 0])
          + fl_sum (map (\<lambda>j. fl_exp (Fin (?sc b h i j) - elem mx' [b, i, h, 0]) * Fin (V b j h d)) [0..<kc])"
    if "b < B" "i < qc" "h < H" "d < D" for b i h d
    using that by (simp add: num'_def elem_broadcast2 sh corr_sh ev_sh corr_e ev_e)
  have sum_e: "elem (reduce_last_keepdims fl_sum ew) [b, i, h, 0]
        = fl_sum (map (\<lambda>j. fl_exp (Fin (?sc b h i j) - elem mx' [b, i, h, 0])) [0..<kc])"
    if "b < B" "i < qc" "h < H" for b i h
  proof -
    have eq: "map (\<lambda>j. elem ew [b, i, h, j]) [0..<kc]
          = map (\<lambda>j. fl_exp (Fin (?sc b h i j) - elem mx' [b, i, h, 0])) [0..<kc]"
      using that by (intro map_cong[OF refl]) (simp add: ew_e)
    have "elem (reduce_last_keepdims fl_sum ew) ([b, i, h] @ [0])
            = fl_sum (map (\<lambda>j. elem ew ([b, i, h] @ [j])) [0..<last (shape ew)])"
      by (rule elem_reduce_last_keepdims) (use that in \<open>simp add: ew_sh\<close>)
    then show ?thesis by (simp add: ew_sh eq)
  qed
  have den_sh: "shape den' = [B, qc, H, D]" by (simp add: den'_def sh corr_sh ew_sh)
  have den_e: "elem den' [b, i, h, d]
        = elem denc [b, i, h, d] * fl_exp (elem mxc [b, i, h, 0] - elem mx' [b, i, h, 0])
          + fl_sum (map (\<lambda>j. fl_exp (Fin (?sc b h i j) - elem mx' [b, i, h, 0])) [0..<kc])"
    if "b < B" "i < qc" "h < H" "d < D" for b i h d
    using that by (simp add: den'_def elem_broadcast2 sh corr_sh ew_sh corr_e sum_e)
  have ne: "[0..<kc] \<noteq> []" using kc by simp
  have ok': "attn_tile_ok B H qc D
               (\<lambda>b h i. Z b h i + (\<Sum>j\<leftarrow>[0..<kc]. exp (?sc b h i j)))
               (\<lambda>b h i d. N b h i d + (\<Sum>j\<leftarrow>[0..<kc]. exp (?sc b h i j) * V b j h d))
               (num', den', mx')"
    unfolding attn_tile_ok_def
  proof (simp only: prod.case, intro conjI allI impI)
    fix b i h d assume bhi: "b < B" "i < qc" "h < H" "d < D"
    have "row_ok (Z b h i + (\<Sum>j\<leftarrow>[0..<kc]. exp (?sc b h i j)))
            (\<lambda>d. N b h i d + (\<Sum>j\<leftarrow>[0..<kc]. exp (?sc b h i j) * V b j h d)) D (elem mx' [b, i, h, 0])
            (elem denc [b, i, h, d] * fl_exp (elem mxc [b, i, h, 0] - elem mx' [b, i, h, 0])
               + fl_sum (map (\<lambda>j. fl_exp (Fin (?sc b h i j) - elem mx' [b, i, h, 0])) [0..<kc]))
            (\<lambda>d. elem numc [b, i, h, d] * fl_exp (elem mxc [b, i, h, 0] - elem mx' [b, i, h, 0])
               + fl_sum (map (\<lambda>j. fl_exp (Fin (?sc b h i j) - elem mx' [b, i, h, 0]) * Fin (V b j h d)) [0..<kc]))"
      by (rule row_step[OF rows[OF bhi] ne mx_e[OF bhi(1-3)]])
    then show "row_ok (Z b h i + (\<Sum>j\<leftarrow>[0..<kc]. exp (?sc b h i j)))
            (\<lambda>d. N b h i d + (\<Sum>j\<leftarrow>[0..<kc]. exp (?sc b h i j) * V b j h d)) D (elem mx' [b, i, h, 0])
            (elem den' [b, i, h, d]) (\<lambda>d'. elem num' [b, i, h, d'])"
      unfolding row_ok_def using bhi by (simp add: den_e num_e)
  qed (simp_all add: num_sh den_sh mx_sh)
  have "attn_scan_kv_block chunk_bias_fn query_chunk qi carry (key_chunk, value_chunk, ki)
          = Inr ((num', den', mx'), ())"
    using Tb Ts Tl
    by (simp add: attn_scan_kv_block_def carry bias Let_def T'_def[symmetric] aw0_def[symmetric] aw0_sh
        aw_def[symmetric] mx'_def[symmetric] ew_def[symmetric] ev_def[symmetric]
        corr_def[symmetric] num'_def[symmetric] den'_def[symmetric] del: One_nat_def)
  with ok' show ?thesis by blast
qed


lemma attn_tile_ok_cong:
  assumes "attn_tile_ok B H qc D Z N carry"
    and "\<And>b h i. b < B \<Longrightarrow> h < H \<Longrightarrow> i < qc \<Longrightarrow> Z b h i = Z' b h i"
    and "\<And>b h i d. b < B \<Longrightarrow> h < H \<Longrightarrow> i < qc \<Longrightarrow> d < D \<Longrightarrow> N b h i d = N' b h i d"
  shows "attn_tile_ok B H qc D Z' N' carry"
proof -
  have "row_ok (Z' b h i) (N' b h i) D m den num"
    if "row_ok (Z b h i) (N b h i) D m den num" "b < B" "h < H" "i < qc" for b h i m den num
    using that assms(2)[OF that(2-4)] assms(3)[OF that(2-4)] unfolding row_ok_def by auto
  then show ?thesis using assms(1) unfolding attn_tile_ok_def by (auto split: prod.splits)
qed

lemma attn_inner_scan:
  assumes "attn_tile_ok B H qc D Z N carry"
    and "fin4 query_chunk B qc H D Q"
    and "\<And>j. j \<in> set js \<Longrightarrow> fin4 (kt j) B kc H D (K j)"
    and "\<And>j. j \<in> set js \<Longrightarrow> fin4 (vt j) B kc H D (V j)"
    and "\<And>j. j \<in> set js \<Longrightarrow> \<exists>T. chunk_bias_fn qi j = Inr T \<and> attn_bias_tile_ok B H qc kc T (\<beta> j)"
    and "0 < kc"
  shows "\<exists>carry' us.
           scan (attn_skip_upper_half causal chunk_bias_fn query_chunk qi) carry
             (map (\<lambda>j. (kt j, vt j, j)) js) = Inr (carry', us)
           \<and> attn_tile_ok B H qc D
               (\<lambda>b h i. Z b h i
                  + (\<Sum>j\<leftarrow>js. if attn_skip_block causal qi j then 0
                       else (\<Sum>l\<leftarrow>[0..<kc]. exp (attn_score D Q (K j) (\<beta> j) b h i l))))
               (\<lambda>b h i d. N b h i d
                  + (\<Sum>j\<leftarrow>js. if attn_skip_block causal qi j then 0
                       else (\<Sum>l\<leftarrow>[0..<kc]. exp (attn_score D Q (K j) (\<beta> j) b h i l) * V j b l h d)))
               carry'"
  using assms
proof (induction js arbitrary: carry Z N)
  case Nil
  show ?case using Nil.prems(1) by simp
next
  case (Cons j js)
  let ?f = "attn_skip_upper_half causal chunk_bias_fn query_chunk qi"
  let ?sk = "attn_skip_block causal qi"
  let ?tz = "\<lambda>j b h i. (\<Sum>l\<leftarrow>[0..<kc]. exp (attn_score D Q (K j) (\<beta> j) b h i l))"
  let ?tn = "\<lambda>j b h i d. (\<Sum>l\<leftarrow>[0..<kc]. exp (attn_score D Q (K j) (\<beta> j) b h i l) * V j b l h d)"
  have jin: "j \<in> set (j # js)" by simp
  obtain T where T: "chunk_bias_fn qi j = Inr T" "attn_bias_tile_ok B H qc kc T (\<beta> j)"
    using Cons.prems(5)[OF jin] by blast
  from attn_scan_kv_block_step[where chunk_bias_fn=chunk_bias_fn and qi=qi and ki=j,
      OF Cons.prems(1,2) Cons.prems(3)[OF jin] Cons.prems(4)[OF jin] T Cons.prems(6)]
  obtain c1 where c1: "attn_scan_kv_block chunk_bias_fn query_chunk qi carry (kt j, vt j, j) = Inr (c1, ())"
    and ok1: "attn_tile_ok B H qc D (\<lambda>b h i. Z b h i + ?tz j b h i) (\<lambda>b h i d. N b h i d + ?tn j b h i d) c1"
    by blast
  define c2 where "c2 = (if ?sk j then carry else c1)"
  have step: "?f carry (kt j, vt j, j) = Inr (c2, ())"
    using c1 by (simp add: attn_skip_upper_half_def c2_def)
  have ok2: "attn_tile_ok B H qc D (\<lambda>b h i. Z b h i + (if ?sk j then 0 else ?tz j b h i))
               (\<lambda>b h i d. N b h i d + (if ?sk j then 0 else ?tn j b h i d)) c2"
    using ok1 Cons.prems(1) by (simp add: c2_def)
  have "\<exists>carry' us.
           scan ?f c2 (map (\<lambda>j. (kt j, vt j, j)) js) = Inr (carry', us)
           \<and> attn_tile_ok B H qc D
               (\<lambda>b h i. (Z b h i + (if ?sk j then 0 else ?tz j b h i))
                  + (\<Sum>j\<leftarrow>js. if ?sk j then 0 else ?tz j b h i))
               (\<lambda>b h i d. (N b h i d + (if ?sk j then 0 else ?tn j b h i d))
                  + (\<Sum>j\<leftarrow>js. if ?sk j then 0 else ?tn j b h i d))
               carry'"
    by (rule Cons.IH[OF ok2 Cons.prems(2)])
       (use Cons.prems in \<open>simp_all\<close>)
  then obtain carry' us where sc: "scan ?f c2 (map (\<lambda>j. (kt j, vt j, j)) js) = Inr (carry', us)"
    and ok3: "attn_tile_ok B H qc D
               (\<lambda>b h i. (Z b h i + (if ?sk j then 0 else ?tz j b h i))
                  + (\<Sum>j\<leftarrow>js. if ?sk j then 0 else ?tz j b h i))
               (\<lambda>b h i d. (N b h i d + (if ?sk j then 0 else ?tn j b h i d))
                  + (\<Sum>j\<leftarrow>js. if ?sk j then 0 else ?tn j b h i d))
               carry'"
    by blast
  have "scan ?f carry (map (\<lambda>j. (kt j, vt j, j)) (j # js)) = Inr (carry', () # us)"
    using step sc by simp
  moreover have "attn_tile_ok B H qc D
               (\<lambda>b h i. Z b h i + (\<Sum>j\<leftarrow>j # js. if ?sk j then 0 else ?tz j b h i))
               (\<lambda>b h i d. N b h i d + (\<Sum>j\<leftarrow>j # js. if ?sk j then 0 else ?tn j b h i d))
               carry'"
    by (rule attn_tile_ok_cong[OF ok3]) (simp_all add: add.assoc)
  ultimately show ?case by blast
qed

lemma sum_list_divide_right: "(\<Sum>x\<leftarrow>xs. f x / (c::real)) = (\<Sum>x\<leftarrow>xs. f x) / c"
  by (induction xs) (simp_all add: add_divide_distrib)

lemma blockwise_attn_ok:
  assumes q: "fin4 query B (nq * qc) H D Q" and k: "fin4 key B (nk * kc) H D K"
    and v: "fin4 value B (nk * kc) H D V"
    and qc: "0 < qc" and kc: "0 < kc" and D: "0 < D"
    and bb: "bias_broadcasts bias [B, H, nq * qc, nk * kc]"
    and bias: "\<And>qt kt. qt < nq \<Longrightarrow> kt < nk \<Longrightarrow>
        \<exists>T. chunk_attention_bias qc kc None bias deterministic
               (if \<not> deterministic \<and> attn_pdrop > 0
                then Some (rng_bernoulli rng (fst (rng_split rng dropout_rng)) attn_pdrop
                             [B, H, nq * qc, nk * kc])
                else None)
               attn_pdrop (if causal then Some ''normal'' else None) dtype qt kt = Inr T
             \<and> attn_bias_tile_ok B H qc kc T (\<lambda>b h i l. \<beta> b h (qt * qc + i) (kt * kc + l))"
  shows "\<exists>out.
           blockwise_attn rng query key value bias deterministic dropout_rng attn_pdrop causal qc kc
             dtype float32_logits = Inr out
           \<and> shape out = [B, nq * qc, H, D] \<and> well_shaped out
           \<and> (\<forall>b<B. \<forall>i<nq * qc. \<forall>h<H. \<forall>d<D.
                 elem out [b, i, h, d]
                   = (if 0 < attn_Z causal D qc kc nk Q K \<beta> b h i
                      then Fin (attn_N causal D qc kc nk Q K V \<beta> b h i d
                                  / attn_Z causal D qc kc nk Q K \<beta> b h i)
                      else NaN))"
proof -
  have qsh: "shape query = [B, nq * qc, H, D]" and ksh: "shape key = [B, nk * kc, H, D]"
    and vsh: "shape value = [B, nk * kc, H, D]"
    using q k v by (auto simp: fin4_def)
  have qe: "\<And>b i h d. b < B \<Longrightarrow> i < nq * qc \<Longrightarrow> h < H \<Longrightarrow> d < D \<Longrightarrow> elem query [b, i, h, d] = Fin (Q b i h d)"
    and ke: "\<And>b j h d. b < B \<Longrightarrow> j < nk * kc \<Longrightarrow> h < H \<Longrightarrow> d < D \<Longrightarrow> elem key [b, j, h, d] = Fin (K b j h d)"
    and ve: "\<And>b j h d. b < B \<Longrightarrow> j < nk * kc \<Longrightarrow> h < H \<Longrightarrow> d < D \<Longrightarrow> elem value [b, j, h, d] = Fin (V b j h d)"
    using q k v by (auto simp: fin4_def)
  have sq: "sqrt (real D) \<noteq> 0" using D by simp
  define qsc where "qsc = tmap (\<lambda>x. x / Fin (sqrt (real D))) query"
  have qsc_sh: "shape qsc = [B, nq * qc, H, D]" by (simp add: qsc_def qsh)
  have qsc_e: "elem qsc [b, i, h, d] = Fin (Q b i h d / sqrt (real D))"
    if "b < B" "i < nq * qc" "h < H" "d < D" for b i h d
    using that sq by (simp add: qsc_def qsh qe)
  define q' where "q' = transpose_axes [1, 0, 2, 3, 4] (with_shape qsc [B, nq, qc, H, D])"
  define k' where "k' = transpose_axes [1, 0, 2, 3, 4] (with_shape key [B, nk, kc, H, D])"
  define v' where "v' = transpose_axes [1, 0, 2, 3, 4] (with_shape value [B, nk, kc, H, D])"
  define cbf where "cbf = chunk_attention_bias qc kc None bias deterministic
               (if \<not> deterministic \<and> attn_pdrop > 0
                then Some (rng_bernoulli rng (fst (rng_split rng dropout_rng)) attn_pdrop
                             [B, H, nq * qc, nk * kc])
                else None)
               attn_pdrop (if causal then Some ''normal'' else None) dtype"
  define init where "init = (zeros [B, qc, H, D], zeros [B, qc, H, D],
                             tmap (\<lambda>x. NInf * x) (full [B, qc, H, 1] 1))"
  define inner where "inner = (\<lambda>n.
     scan (attn_skip_upper_half causal cbf (slice_axis 0 q' n) n) init
       (map (\<lambda>j. (slice_axis 0 k' j, slice_axis 0 v' j, j)) [0..<nk]))"
  define g where "g = (\<lambda>u::unit. \<lambda>n. case inner n of
                          Inl e \<Rightarrow> Inl e
                        | Inr ((numerator, denominator, max_score), nothing) \<Rightarrow>
                            Inr ((), broadcast2 (/) numerator denominator))"
  let ?Z = "attn_Z causal D qc kc nk Q K \<beta>"
  let ?N = "attn_N causal D qc kc nk Q K V \<beta>"
  have init_ok: "attn_tile_ok B H qc D (\<lambda>b h i. 0) (\<lambda>b h i d. 0) init"
    unfolding attn_tile_ok_def init_def row_ok_def
    by (simp add: full_def times_fl_def one_fl_def)
  have tile: "\<exists>out. g () n = Inr ((), out) \<and> shape out = [B, qc, H, D]
                \<and> (\<forall>b<B. \<forall>i<qc. \<forall>h<H. \<forall>d<D.
                      elem out [b, i, h, d]
                        = (if 0 < ?Z b h (n * qc + i)
                           then Fin (?N b h (n * qc + i) d / ?Z b h (n * qc + i)) else NaN))"
    if n: "n < nq" for n
  proof -
    have pos: "n * qc + i < nq * qc" if "i < qc" for i
      using n that by (rule tile_position_less)
    have qf: "fin4 (slice_axis 0 q' n) B qc H D (\<lambda>b i h d. Q b (n * qc + i) h d / sqrt (real D))"
      unfolding fin4_def q'_def using slice_tile4[OF qsc_sh n] qsc_e pos by simp
    have kf: "fin4 (slice_axis 0 k' j) B kc H D (\<lambda>b l h d. K b (j * kc + l) h d)" if "j \<in> set [0..<nk]" for j
    proof -
      have j: "j < nk" using that by simp
      have "j * kc + l < nk * kc" if "l < kc" for l using j that by (rule tile_position_less)
      then show ?thesis unfolding fin4_def k'_def using slice_tile4[OF ksh j] ke by simp
    qed
    have vf: "fin4 (slice_axis 0 v' j) B kc H D (\<lambda>b l h d. V b (j * kc + l) h d)" if "j \<in> set [0..<nk]" for j
    proof -
      have j: "j < nk" using that by simp
      have "j * kc + l < nk * kc" if "l < kc" for l using j that by (rule tile_position_less)
      then show ?thesis unfolding fin4_def v'_def using slice_tile4[OF vsh j] ve by simp
    qed
    have bf: "\<exists>T. cbf n j = Inr T
                \<and> attn_bias_tile_ok B H qc kc T (\<lambda>b h i l. \<beta> b h (n * qc + i) (j * kc + l))"
      if "j \<in> set [0..<nk]" for j
      using bias[OF n, of j] that by (simp add: cbf_def)
    from attn_inner_scan[where causal=causal and chunk_bias_fn=cbf and qi=n
        and kt="\<lambda>j. slice_axis 0 k' j" and vt="\<lambda>j. slice_axis 0 v' j"
        and K="\<lambda>j b l h d. K b (j * kc + l) h d" and V="\<lambda>j b l h d. V b (j * kc + l) h d"
        and \<beta>="\<lambda>j b h i l. \<beta> b h (n * qc + i) (j * kc + l)",
        OF init_ok qf kf vf bf kc]
    obtain c us where run: "inner n = Inr (c, us)"
      and okc: "attn_tile_ok B H qc D
               (\<lambda>b h i. 0
                  + (\<Sum>j\<leftarrow>[0..<nk]. if attn_skip_block causal n j then 0
                       else (\<Sum>l\<leftarrow>[0..<kc]. exp (attn_score D (\<lambda>b i h d. Q b (n * qc + i) h d / sqrt (real D))
                               (\<lambda>b l h d. K b (j * kc + l) h d)
                               (\<lambda>b h i l. \<beta> b h (n * qc + i) (j * kc + l)) b h i l))))
               (\<lambda>b h i d. 0
                  + (\<Sum>j\<leftarrow>[0..<nk]. if attn_skip_block causal n j then 0
                       else (\<Sum>l\<leftarrow>[0..<kc]. exp (attn_score D (\<lambda>b i h d. Q b (n * qc + i) h d / sqrt (real D))
                               (\<lambda>b l h d. K b (j * kc + l) h d)
                               (\<lambda>b h i l. \<beta> b h (n * qc + i) (j * kc + l)) b h i l)
                             * V b (j * kc + l) h d)))
               c"
      unfolding inner_def by blast
    have dv: "(n * qc + i) div qc = n" if "i < qc" for i using that by simp
    have okc': "attn_tile_ok B H qc D (\<lambda>b h i. ?Z b h (n * qc + i)) (\<lambda>b h i d. ?N b h (n * qc + i) d) c"
      by (rule attn_tile_ok_cong[OF okc])
         (simp_all add: attn_Z_def attn_N_def attn_score_def tile_score_def dv sum_list_divide_right
            cong: if_cong)
    obtain cn cd cm where c: "c = (cn, cd, cm)" by (cases c) auto
    have csh: "shape cn = [B, qc, H, D]" "shape cd = [B, qc, H, D]"
      and crow: "\<And>b i h d. b < B \<Longrightarrow> i < qc \<Longrightarrow> h < H \<Longrightarrow> d < D \<Longrightarrow>
                   row_ok (?Z b h (n * qc + i)) (?N b h (n * qc + i)) D (elem cm [b, i, h, 0])
                     (elem cd [b, i, h, d]) (\<lambda>d'. elem cn [b, i, h, d'])"
      using okc' by (auto simp: attn_tile_ok_def c)
    define out where "out = broadcast2 (/) cn cd"
    have gn: "g () n = Inr ((), out)" by (simp add: g_def run c out_def)
    have osh: "shape out = [B, qc, H, D]" by (simp add: out_def csh)
    have oe: "elem out [b, i, h, d]
                = (if 0 < ?Z b h (n * qc + i)
                   then Fin (?N b h (n * qc + i) d / ?Z b h (n * qc + i)) else NaN)"
      if "b < B" "i < qc" "h < H" "d < D" for b i h d
    proof -
      have e: "elem out [b, i, h, d] = elem cn [b, i, h, d] / elem cd [b, i, h, d]"
        using that by (simp add: out_def elem_broadcast2 csh)
      from crow[OF that] show ?thesis
        unfolding row_ok_def e using that(4) by auto
    qed
    show ?thesis using gn osh oe by blast
  qed
  have "\<forall>n. \<exists>out. n < nq \<longrightarrow> g () n = Inr ((), out) \<and> shape out = [B, qc, H, D]
                \<and> (\<forall>b<B. \<forall>i<qc. \<forall>h<H. \<forall>d<D.
                      elem out [b, i, h, d]
                        = (if 0 < ?Z b h (n * qc + i)
                           then Fin (?N b h (n * qc + i) d / ?Z b h (n * qc + i)) else NaN))"
    using tile by blast
  from choice[OF this] obtain f where
    f_run: "\<And>n. n < nq \<Longrightarrow> g () n = Inr ((), f n)"
    and f_e: "\<And>n b i h d. n < nq \<Longrightarrow> b < B \<Longrightarrow> i < qc \<Longrightarrow> h < H \<Longrightarrow> d < D \<Longrightarrow>
                 elem (f n) [b, i, h, d]
                   = (if 0 < ?Z b h (n * qc + i)
                      then Fin (?N b h (n * qc + i) d / ?Z b h (n * qc + i)) else NaN)"
    by blast
  have outer: "scan g () [0..<nq] = Inr ((), map f [0..<nq])"
    by (rule scan_unit) (simp add: f_run)
  define res where "res = with_shape
       (transpose_axes [1, 0, 2, 3, 4] (stack_axis 0 [B, qc, H, D] (map f [0..<nq]))) [B, nq * qc, H, D]"
  have res_e: "elem res [b, i, h, d]
                 = (if 0 < ?Z b h i then Fin (?N b h i d / ?Z b h i) else NaN)"
    if "b < B" "i < nq * qc" "h < H" "d < D" for b i h d
  proof -
    define n where "n = i div qc"
    define r where "r = i mod qc"
    have i: "n * qc + r = i" by (simp add: n_def r_def)
    have n: "n < nq" using that(2) qc by (simp add: n_def less_mult_imp_div_less)
    have r: "r < qc" using qc by (simp add: r_def)
    have "elem res [b, i, h, d] = elem (map f [0..<nq] ! n) [b, r, h, d]"
      unfolding res_def n_def r_def
      by (rule merge_tile4) (use that qc in \<open>simp_all\<close>)
    also have "\<dots> = elem (f n) [b, r, h, d]" using n by simp
    finally show ?thesis using f_e[OF n that(1) r that(3,4)] by (simp add: i)
  qed
  have sizes: "prod_list [B, nq * qc, H, D] = prod_list [B, nq, qc, H, D]"
    "prod_list [B, nk * kc, H, D] = prod_list [B, nk, kc, H, D]"
    by (simp_all add: algebra_simps)
  have dq: "nq * qc div qc = nq" and dk: "nk * kc div kc = nk" using qc kc by simp_all
  have ne: "shape query \<noteq> []" and lastD: "last (shape query) = D" by (simp_all add: qsh)
  have run: "blockwise_attn rng query key value bias deterministic dropout_rng attn_pdrop causal qc kc
             dtype float32_logits = Inr res"
    unfolding blockwise_attn_def
    using qc kc bb
    apply (simp only: ne if_False lastD qsc_def[symmetric])
    apply (simp only: Let_def)
    apply (simp only: qsc_sh ksh vsh prod.case list.case dq dk sizes)
    apply (simp only: q'_def[symmetric] k'_def[symmetric] v'_def[symmetric] cbf_def[symmetric]
        init_def[symmetric])
    apply (simp add: outer[unfolded g_def inner_def] res_def del: One_nat_def)
    done
  have res_w: "well_shaped res"
    unfolding res_def by (rule well_shaped_with_shape) (simp_all add: transpose_axes_def algebra_simps)
  have res_s: "shape res = [B, nq * qc, H, D]" by (simp add: res_def)
  show ?thesis using run res_e res_w res_s by blast
qed


section \<open>The single-device pass against dense attention\<close>

lemma sum_list_tiles:
  fixes f :: "nat \<Rightarrow> real"
  shows "(\<Sum>kt\<leftarrow>[0..<nk]. \<Sum>l\<leftarrow>[0..<kc]. f (kt * kc + l)) = (\<Sum>j\<leftarrow>[0..<nk * kc]. f j)"
proof (induction nk)
  case 0
  show ?case by simp
next
  case (Suc nk)
  have "[nk * kc..<nk * kc + kc] = map (\<lambda>l. nk * kc + l) [0..<kc]"
    using map_add_upt[of "nk * kc" kc] by (simp add: add.commute)
  moreover have "[0..<Suc nk * kc] = [0..<nk * kc] @ [nk * kc..<nk * kc + kc]"
    using upt_add_eq_append[of 0 "nk * kc" kc] by (simp add: add.commute)
  ultimately have "[0..<Suc nk * kc] = [0..<nk * kc] @ map (\<lambda>l. nk * kc + l) [0..<kc]"
    by simp
  then show ?case using Suc by (simp add: comp_def)
qed

lemma chunk_attention_bias_none:
  assumes "deterministic \<or> attn_pdrop \<le> 0"
  shows "chunk_attention_bias qc kc block_size None deterministic attn_dropout attn_pdrop None dtype qt kt
         = Inr (zeros [1, 1, 1, 1])"
  using assms by (auto simp: chunk_attention_bias_def Let_def)

lemma attn_bias_tile_ok_zeros: "attn_bias_tile_ok B H qc kc (zeros [1, 1, 1, 1]) (\<lambda>b h i l. 0)"
  unfolding attn_bias_tile_ok_def by (simp add: transpose_axes_def in_range_def)

lemma fin4_tmap_Fin:
  assumes "shape t = [n0, n1, n2, n3]"
  shows "fin4 (tmap Fin t) n0 n1 n2 n3 (\<lambda>a b c d. elem t [a, b, c, d])"
  unfolding fin4_def using assms by (simp add: in_range_def)

lemma attn_Z_dense:
  "attn_Z False D qc kc nk Q K (\<lambda>b h i l. 0) b h i
     = (\<Sum>j\<leftarrow>[0..<nk * kc]. exp ((\<Sum>d\<leftarrow>[0..<D]. Q b i h d * K b j h d) / sqrt (real D)))"
proof -
  have "attn_Z False D qc kc nk Q K (\<lambda>b h i l. 0) b h i
     = (\<Sum>kt\<leftarrow>[0..<nk]. \<Sum>l\<leftarrow>[0..<kc].
          exp ((\<Sum>d\<leftarrow>[0..<D]. Q b i h d * K b (kt * kc + l) h d) / sqrt (real D)))"
    by (simp add: attn_Z_def attn_skip_block_def tile_score_def)
  also have "\<dots> = (\<Sum>j\<leftarrow>[0..<nk * kc]. exp ((\<Sum>d\<leftarrow>[0..<D]. Q b i h d * K b j h d) / sqrt (real D)))"
    by (rule sum_list_tiles)
  finally show ?thesis .
qed

lemma attn_N_dense:
  "attn_N False D qc kc nk Q K V (\<lambda>b h i l. 0) b h i d
     = (\<Sum>j\<leftarrow>[0..<nk * kc]. exp ((\<Sum>d\<leftarrow>[0..<D]. Q b i h d * K b j h d) / sqrt (real D)) * V b j h d)"
proof -
  have "attn_N False D qc kc nk Q K V (\<lambda>b h i l. 0) b h i d
     = (\<Sum>kt\<leftarrow>[0..<nk]. \<Sum>l\<leftarrow>[0..<kc].
          exp ((\<Sum>d\<leftarrow>[0..<D]. Q b i h d * K b (kt * kc + l) h d) / sqrt (real D)) * V b (kt * kc + l) h d)"
    by (simp add: attn_N_def attn_skip_block_def tile_score_def)
  also have "\<dots> = (\<Sum>j\<leftarrow>[0..<nk * kc]. exp ((\<Sum>d\<leftarrow>[0..<D]. Q b i h d * K b j h d) / sqrt (real D)) * V b j h d)"
    by (rule sum_list_tiles)
  finally show ?thesis .
qed

lemma dense_attention_elem:
  fixes q k v :: "real tensor"
  assumes "shape q = [B, nq, H, D]" and "shape k = [B, n, H, D]"
    and "b < B" "i < nq" "h < H" "d < D"
  shows "elem (dense_attention q k v) [b, i, h, d]
         = (\<Sum>j\<leftarrow>[0..<n]. exp ((\<Sum>d\<leftarrow>[0..<D]. elem q [b, i, h, d] * elem k [b, j, h, d]) / sqrt (real D))
                              * elem v [b, j, h, d])
           / (\<Sum>j\<leftarrow>[0..<n]. exp ((\<Sum>d\<leftarrow>[0..<D]. elem q [b, i, h, d] * elem k [b, j, h, d]) / sqrt (real D)))"
proof -
  define s where "s = (\<lambda>j. (\<Sum>d\<leftarrow>[0..<D]. elem q [b, i, h, d] * elem k [b, j, h, d]) / sqrt (real D))"
  have ds: "dense_scores q k b i h = map s [0..<n]"
    by (simp add: dense_scores_def s_def assms(1,2))
  have sm: "softmax (map s [0..<n]) ! j = exp (s j) / (\<Sum>j\<leftarrow>[0..<n]. exp (s j))" if "j < n" for j
    using that by (simp add: softmax_def comp_def)
  have "elem (dense_attention q k v) [b, i, h, d]
          = (\<Sum>j\<leftarrow>[0..<n]. softmax (map s [0..<n]) ! j * elem v [b, j, h, d])"
    using assms(3-6) by (simp add: dense_attention_def assms(1,2) in_range_def ds)
  also have "\<dots> = (\<Sum>j\<leftarrow>[0..<n]. exp (s j) * elem v [b, j, h, d] / (\<Sum>j\<leftarrow>[0..<n]. exp (s j)))"
    by (rule arg_cong[where f=sum_list], rule map_cong) (simp_all add: sm)
  also have "\<dots> = (\<Sum>j\<leftarrow>[0..<n]. exp (s j) * elem v [b, j, h, d]) / (\<Sum>j\<leftarrow>[0..<n]. exp (s j))"
    by (rule sum_list_divide_right)
  finally show ?thesis unfolding s_def .
qed

lemma blockwise_attn_none_ok:
  fixes q k v :: "real tensor"
  assumes "shape q = [B, nq * qc, H, D]" and "shape k = [B, nk * kc, H, D]"
    and "shape v = [B, nk * kc, H, D]"
    and "0 < qc" and "0 < kc" and "0 < D"
    and "deterministic \<or> attn_pdrop \<le> 0"
  shows "\<exists>out. blockwise_attn rng (tmap Fin q) (tmap Fin k) (tmap Fin v) None deterministic dropout_rng
           attn_pdrop False qc kc dtype float32_logits = Inr out
         \<and> shape out = [B, nq * qc, H, D] \<and> well_shaped out
         \<and> (\<forall>b<B. \<forall>i<nq * qc. \<forall>h<H. \<forall>d<D.
               elem out [b, i, h, d]
                 = (if 0 < attn_Z False D qc kc nk (\<lambda>a b c d. elem q [a, b, c, d])
                             (\<lambda>a b c d. elem k [a, b, c, d]) (\<lambda>b h i l. 0) b h i
                    then Fin (attn_N False D qc kc nk (\<lambda>a b c d. elem q [a, b, c, d])
                                (\<lambda>a b c d. elem k [a, b, c, d]) (\<lambda>a b c d. elem v [a, b, c, d])
                                (\<lambda>b h i l. 0) b h i d
                              / attn_Z False D qc kc nk (\<lambda>a b c d. elem q [a, b, c, d])
                                  (\<lambda>a b c d. elem k [a, b, c, d]) (\<lambda>b h i l. 0) b h i)
                    else NaN))"
proof (rule blockwise_attn_ok[where \<beta>="\<lambda>b h i l. 0"])
  show "fin4 (tmap Fin q) B (nq * qc) H D (\<lambda>a b c d. elem q [a, b, c, d])"
    by (rule fin4_tmap_Fin[OF assms(1)])
  show "fin4 (tmap Fin k) B (nk * kc) H D (\<lambda>a b c d. elem k [a, b, c, d])"
    by (rule fin4_tmap_Fin[OF assms(2)])
  show "fin4 (tmap Fin v) B (nk * kc) H D (\<lambda>a b c d. elem v [a, b, c, d])"
    by (rule fin4_tmap_Fin[OF assms(3)])
  show "0 < qc" "0 < kc" "0 < D" by (rule assms)+
  show "bias_broadcasts None [B, H, nq * qc, nk * kc]" by (simp add: bias_broadcasts_def)
  fix qt kt
  have nd: "(if \<not> deterministic \<and> 0 < attn_pdrop
             then Some (rng_bernoulli rng (fst (rng_split rng dropout_rng)) attn_pdrop [B, H, nq * qc, nk * kc])
             else None) = None"
    using assms(7) by auto
  show "\<exists>T. chunk_attention_bias qc kc None None deterministic
               (if \<not> deterministic \<and> attn_pdrop > 0
                then Some (rng_bernoulli rng (fst (rng_split rng dropout_rng)) attn_pdrop
                             [B, H, nq * qc, nk * kc])
                else None)
               attn_pdrop (if False then Some ''normal'' else None) dtype qt kt = Inr T
             \<and> attn_bias_tile_ok B H qc kc T (\<lambda>b h i l. 0)"
    unfolding nd if_False chunk_attention_bias_none[OF assms(7)]
    using attn_bias_tile_ok_zeros by blast
qed



section \<open>Skipped pairs of tiles\<close>

lemma causal_pass_skip_rule:
  assumes "(qs + qi) * qc + qc < 2 ^ 31" and "(ks + ki) * kc < 2 ^ 31"
    and "0 < bs" and "bs + qc < 2 ^ 31"
  shows "fwd_skip_block (Some ''normal'') qc kc obs qs ks qi ki
           = Inr ((qs + qi) * qc + qc \<le> (ks + ki) * kc)"
    and "bwd_skip_block (Some ''normal'') qc kc obs qs ks qi ki
           = Inr ((qs + qi) * qc + qc \<le> (ks + ki) * kc)"
    and "fwd_skip_block (Some ''striped'') qc kc (Some bs) qs ks qi ki
           = Inr (((qs + qi) * qc) mod bs + qc \<le> ((ks + ki) * kc) mod bs)"
    and "bwd_skip_block (Some ''striped'') qc kc (Some bs) qs ks qi ki
           = Inr (((qs + qi) * qc) mod bs + qc \<le> ((ks + ki) * kc) mod bs)"
    and "fwd_skip_block None qc kc obs qs ks qi ki = Inr False"
    and "bwd_skip_block None qc kc obs qs ks qi ki = Inr False"
proof -
  have q: "(qs + qi) * qc < 2 ^ 31" using assms(1) by simp
  show "fwd_skip_block (Some ''normal'') qc kc obs qs ks qi ki
           = Inr ((qs + qi) * qc + qc \<le> (ks + ki) * kc)"
    by (rule fwd_skip_block_normal[OF assms(1,2)])
  then show "bwd_skip_block (Some ''normal'') qc kc obs qs ks qi ki
           = Inr ((qs + qi) * qc + qc \<le> (ks + ki) * kc)"
    by (simp only: bwd_skip_block_eq)
  show "fwd_skip_block (Some ''striped'') qc kc (Some bs) qs ks qi ki
           = Inr (((qs + qi) * qc) mod bs + qc \<le> ((ks + ki) * kc) mod bs)"
    by (rule fwd_skip_block_striped[OF assms(3,4) q assms(2)])
  then show "bwd_skip_block (Some ''striped'') qc kc (Some bs) qs ks qi ki
           = Inr (((qs + qi) * qc) mod bs + qc \<le> ((ks + ki) * kc) mod bs)"
    by (simp only: bwd_skip_block_eq)
  show "fwd_skip_block None qc kc obs qs ks qi ki = Inr False" by simp
  then show "bwd_skip_block None qc kc obs qs ks qi ki = Inr False"
    by (simp only: bwd_skip_block_eq)
qed

lemma attn_skip_block_rule:
  assumes "qi < 2 ^ 31" and "ki < 2 ^ 31"
  shows "attn_skip_block causal qi ki \<longleftrightarrow> causal \<and> qi < ki"
  using assms by (simp add: attn_skip_block_def int32_nat)

text \<open>
  Claim C4, where the code departs from it. In \<^verbatim>\<open>_blockwise_attention_fwd\<close> and
  \<^verbatim>\<open>_blockwise_attention_bwd\<close> a pair of tiles is skipped exactly when \<open>q_hi \<le> k_lo\<close>, with
  the positions taken modulo the block size for the striped layout, and never for the
  layout \<^verbatim>\<open>None\<close> (\<open>causal_pass_skip_rule\<close>, for positions below \<open>2 ^ 31\<close>). The
  single-device entry point \<^verbatim>\<open>blockwise_attn\<close> compares the numbers of the two tiles
  instead (\<open>attn_skip_block_rule\<close>), which is another rule as soon as the query chunk is
  longer than the key chunk. With a query chunk of 4 and a key chunk of 2, query tile 0
  holds the positions 0 to 3 and key tile 1 the positions 2 and 3: \<open>q_hi = 4\<close> is not
  at most \<open>k_lo = 2\<close>, the forward pass does not skip the pair, and the bias tile leaves
  the entry of query position 2 and key position 2 unmasked; \<^verbatim>\<open>blockwise_attn\<close> skips the
  pair, so the queries at 2 and 3 never see the keys at 2 and 3.
\<close>

theorem attn_skip_block_compares_tile_numbers:
  "attn_skip_block True 0 1 = True
   \<and> \<not> ((0 * 4 + 4 :: nat) \<le> 1 * 2)
   \<and> fwd_skip_block (Some ''normal'') 4 2 None 0 0 0 1 = Inr False
   \<and> bwd_skip_block (Some ''normal'') 4 2 None 0 0 0 1 = Inr False
   \<and> chunk_attention_bias 4 2 None None True None 0 (Some ''normal'') Float32 0 1
       = Inr (causal_mask_value 4 2 (- 2) Float32)
   \<and> elem (causal_mask_value 4 2 (- 2) Float32) [0, 0, 2, 0] = Fin 0"
  by (simp add: attn_skip_block_def fwd_skip_block_def bwd_skip_block_def Let_def int32_def
        chunk_attention_bias_normal causal_mask_value_def)




section \<open>The dropout key is not read without dropout\<close>

lemma attn_dropout_mask_none:
  assumes "kw_deterministic kw \<or> kw_attn_pdrop kw \<le> 0"
  shows "attn_dropout_mask rng' (kw\<lparr>kw_dropout_rng := r\<rparr>) s = None"
    and "attn_dropout_mask rng kw s = None"
  using assms by (auto simp: attn_dropout_mask_def)

lemma kw_dropout_rng_update:
  "kw_causal_layout (kw\<lparr>kw_dropout_rng := r\<rparr>) = kw_causal_layout kw"
  "kw_query_chunk_size (kw\<lparr>kw_dropout_rng := r\<rparr>) = kw_query_chunk_size kw"
  "kw_key_chunk_size (kw\<lparr>kw_dropout_rng := r\<rparr>) = kw_key_chunk_size kw"
  "kw_block_size (kw\<lparr>kw_dropout_rng := r\<rparr>) = kw_block_size kw"
  "kw_deterministic (kw\<lparr>kw_dropout_rng := r\<rparr>) = kw_deterministic kw"
  "kw_attn_pdrop (kw\<lparr>kw_dropout_rng := r\<rparr>) = kw_attn_pdrop kw"
  "kw_dtype (kw\<lparr>kw_dropout_rng := r\<rparr>) = kw_dtype kw"
  by simp_all

lemma fwd_skip_upper_half_rng:
  "fwd_skip_upper_half (kw\<lparr>kw_dropout_rng := r\<rparr>) = fwd_skip_upper_half kw"
  unfolding fwd_skip_upper_half_def kw_dropout_rng_update by (rule refl)

lemma bwd_skip_upper_half_rng:
  "bwd_skip_upper_half (kw\<lparr>kw_dropout_rng := r\<rparr>) = bwd_skip_upper_half kw"
  unfolding bwd_skip_upper_half_def kw_dropout_rng_update by (rule refl)

lemma blockwise_attention_fwd_rng:
  assumes "kw_deterministic kw \<or> kw_attn_pdrop kw \<le> 0"
  shows "blockwise_attention_fwd rng' q k v carry qs ks bias (kw\<lparr>kw_dropout_rng := r\<rparr>)
         = blockwise_attention_fwd rng q k v carry qs ks bias kw"
  unfolding blockwise_attention_fwd_def attn_dropout_mask_none[OF assms] fwd_skip_upper_half_rng
    kw_dropout_rng_update
  by (rule refl)

lemma blockwise_attention_bwd_rng:
  assumes "kw_deterministic kw \<or> kw_attn_pdrop kw \<le> 0"
  shows "blockwise_attention_bwd rng' q k v g carry qs ks bias (kw\<lparr>kw_dropout_rng := r\<rparr>)
         = blockwise_attention_bwd rng q k v g carry qs ks bias kw"
  unfolding blockwise_attention_bwd_def attn_dropout_mask_none[OF assms] bwd_skip_upper_half_rng
    kw_dropout_rng_update
  by (rule refl)

lemma ring_fwd_scan_kv_block_rng:
  assumes "kw_deterministic kw \<or> kw_attn_pdrop kw \<le> 0"
  shows "ring_fwd_scan_kv_block rng' (kw\<lparr>kw_dropout_rng := r\<rparr>)
         = ring_fwd_scan_kv_block rng kw"
  unfolding ring_fwd_scan_kv_block_def blockwise_attention_fwd_rng[OF assms, where rng=rng]
    kw_dropout_rng_update
  by (rule refl)

lemma ring_bwd_scan_kv_block_rng:
  assumes "kw_deterministic kw \<or> kw_attn_pdrop kw \<le> 0"
  shows "ring_bwd_scan_kv_block rng' (kw\<lparr>kw_dropout_rng := r\<rparr>)
         = ring_bwd_scan_kv_block rng kw"
  unfolding ring_bwd_scan_kv_block_def blockwise_attention_bwd_rng[OF assms, where rng=rng]
    kw_dropout_rng_update
  by (rule refl)

lemma ring_attention_fwd_rng:
  assumes "kw_deterministic kw \<or> kw_attn_pdrop kw \<le> 0"
  shows "ring_attention_fwd rng' qs ks vs attn_biases float32_logits (kw\<lparr>kw_dropout_rng := r\<rparr>)
         = ring_attention_fwd rng qs ks vs attn_biases float32_logits kw"
  unfolding ring_attention_fwd_def ring_fwd_hop_def ring_fwd_scan_kv_block_rng[OF assms, where rng=rng]
  by (rule refl)

lemma ring_attention_bwd_rng:
  assumes "kw_deterministic kw \<or> kw_attn_pdrop kw \<le> 0"
  shows "ring_attention_bwd rng' float32_logits (kw\<lparr>kw_dropout_rng := r\<rparr>) res gs
         = ring_attention_bwd rng float32_logits kw res gs"
  unfolding ring_attention_bwd_def ring_bwd_hop_def ring_bwd_scan_kv_block_rng[OF assms, where rng=rng]
  by (rule refl)

lemma blockwise_attn_rng:
  assumes "deterministic \<or> attn_pdrop \<le> 0"
  shows "blockwise_attn rng' query key value bias deterministic r attn_pdrop causal qc kc dtype f32
         = blockwise_attn rng query key value bias deterministic r' attn_pdrop causal qc kc dtype f32"
proof -
  have nd: "(if \<not> deterministic \<and> 0 < attn_pdrop then x else None) = None" for x :: "bool tensor option"
    using assms by auto
  show ?thesis unfolding blockwise_attn_def nd by (rule refl)
qed



end
